theory Spec2Isabelle
  imports Complex_Main "HOL-Library.Log_Nat"
begin

section \<open>The output sink\<close>

text \<open>
  The writer of \<^verbatim>\<open>mvz/pdf.go\<close> sends every byte to an \<^verbatim>\<open>io.Writer\<close>. The sink is
  the only collaborator that can fail, so it is modelled with its failures: each call of
  \<^verbatim>\<open>Write\<close> either takes the whole slice and returns no error, or takes a prefix of
  \<open>n\<close> bytes (all of them when \<open>n\<close> is not smaller than the slice) and returns an error.
  This is the contract of \<^verbatim>\<open>io.Writer\<close>: a short count comes with an error.

  What the sink answers to its successive calls is prescribed by a \<open>script\<close>, one outcome
  per call, and by the \<open>fallback\<close> outcome for every call after the script has run out.
  The fields \<open>accepted\<close>, \<open>calls\<close> and \<open>rejected\<close> are the observer's log: the bytes the
  sink took so far, the number of calls it received and the number of calls it answered
  with an error.
\<close>

datatype error = WriteError nat

datatype outcome = Accept | Reject nat error

record sink =
  accepted :: string
  script :: "outcome list"
  fallback :: outcome
  calls :: nat
  rejected :: nat

definition next_outcome :: "sink \<Rightarrow> outcome" where
  "next_outcome s = (case script s of [] \<Rightarrow> fallback s | x # _ \<Rightarrow> x)"

definition Write :: "sink \<Rightarrow> string \<Rightarrow> nat \<times> error option \<times> sink" where
  "Write s d =
     (let s' = s\<lparr>script := tl (script s), calls := Suc (calls s)\<rparr>
      in case next_outcome s of
           Accept \<Rightarrow> (length d, None, s'\<lparr>accepted := accepted s @ d\<rparr>)
         | Reject n e \<Rightarrow>
             (min n (length d), Some e,
              s'\<lparr>accepted := accepted s @ take n d, rejected := Suc (rejected s)\<rparr>))"

definition new_sink :: "outcome list \<Rightarrow> outcome \<Rightarrow> sink" where
  "new_sink sc fb = \<lparr>accepted = [], script = sc, fallback = fb, calls = 0, rejected = 0\<rparr>"

text \<open>A sink that takes every write.\<close>

definition reliable_sink :: sink where
  "reliable_sink = new_sink [] Accept"


section \<open>Formatting verbs\<close>

text \<open>
  \<^verbatim>\<open>%d\<close> of a non-negative integer is \<open>dec\<close>, of any integer \<open>fmt_d\<close>;
  \<^verbatim>\<open>%010d\<close> of a non-negative integer is \<open>pad10\<close>: zeros on the left up to width ten,
  and the whole number when it has more than ten digits.
\<close>

definition digit :: "nat \<Rightarrow> char" where
  "digit n = ''0123456789'' ! (n mod 10)"

fun dec :: "nat \<Rightarrow> string" where
  "dec n = (if n < 10 then [digit n] else dec (n div 10) @ [digit n])"

declare dec.simps [simp del]

definition fmt_d :: "int \<Rightarrow> string" where
  "fmt_d i = (if i < 0 then CHR ''-'' # dec (nat (- i)) else dec (nat i))"

definition pad10 :: "nat \<Rightarrow> string" where
  "pad10 n = replicate (10 - length (dec n)) CHR ''0'' @ dec n"

text \<open>Reading a decimal numeral back, to say which number a field of the output states.\<close>

definition digit_val :: "char \<Rightarrow> nat" where
  "digit_val c = of_char c - 48"

definition undec :: "string \<Rightarrow> nat" where
  "undec s = foldl (\<lambda>a c. 10 * a + digit_val c) 0 s"


section \<open>Lengths: binary64 arithmetic and the verb \<^verbatim>\<open>%.2f\<close>\<close>

text \<open>
  \<^verbatim>\<open>type Length float64\<close>. A finite binary64 value is carried as the rational it
  denotes; negative zero, the infinities and NaN are separate constructors, as
  \<^verbatim>\<open>WritePage\<close> can be handed any of them.

  \<open>f64_round\<close> is rounding to the nearest binary64 value, ties to the even significand:
  \<open>ilog2 \<bar>x\<bar>\<close> is the binary exponent of \<open>x\<close> and the significand has 53 bits. The
  exponent range is not modelled: the values computed here come from a 64-bit integer
  divided by 150 and multiplied by 72, which stay far inside the normal range.
\<close>

datatype Length = Finite rat | NegZero | PosInf | NegInf | NaN

definition round_half_even :: "rat \<Rightarrow> int" where
  "round_half_even r =
     (let f = \<lfloor>r\<rfloor>; d = r - of_int f
      in if d < 1 / 2 then f else if 1 / 2 < d then f + 1 else if even f then f else f + 1)"

definition pow2 :: "int \<Rightarrow> rat" where
  "pow2 e = (if 0 \<le> e then 2 ^ nat e else 1 / 2 ^ nat (- e))"

definition ilog2 :: "rat \<Rightarrow> int" where
  "ilog2 x =
     (case quotient_of x of (a, b) \<Rightarrow>
        let d = int (floorlog 2 (nat a)) - int (floorlog 2 (nat b))
        in if pow2 d \<le> x then d else d - 1)"

definition f64_round :: "rat \<Rightarrow> rat" where
  "f64_round x =
     (if x = 0 then 0
      else let q = pow2 (ilog2 \<bar>x\<bar> - 52)
           in sgn x * of_int (round_half_even (\<bar>x\<bar> / q)) * q)"

definition f64_of_int :: "int \<Rightarrow> rat" where
  "f64_of_int i = f64_round (of_int i)"

definition f64_div :: "rat \<Rightarrow> rat \<Rightarrow> rat" where
  "f64_div a b = f64_round (a / b)"

definition f64_mul :: "rat \<Rightarrow> rat \<Rightarrow> rat" where
  "f64_mul a b = f64_round (a * b)"

text \<open>\<^verbatim>\<open>INCH Length = 72\<close>.\<close>

definition INCH :: rat where
  "INCH = 72"

text \<open>
  \<^verbatim>\<open>%.2f\<close>: the exact value rounded to two decimals, ties to even, with the sign
  kept also when the digits round to zero.
\<close>

definition fixed2 :: "nat \<Rightarrow> string" where
  "fixed2 h = dec (h div 100) @ ''.'' @ [digit (h div 10), digit h]"

definition fmt_f2 :: "Length \<Rightarrow> string" where
  "fmt_f2 v =
     (case v of
        Finite r \<Rightarrow>
          (if r < 0 then ''-'' else []) @ fixed2 (nat (round_half_even (\<bar>r\<bar> * 100)))
      | NegZero \<Rightarrow> ''-0.00''
      | PosInf \<Rightarrow> ''+Inf''
      | NegInf \<Rightarrow> ''-Inf''
      | NaN \<Rightarrow> ''NaN'')"


section \<open>The writer\<close>

text \<open>
  \<^verbatim>\<open>PDFWriter\<close>. The fields \<open>offset\<close>, \<open>objects\<close> and the identifiers are Go
  \<^verbatim>\<open>int\<close>s that only ever grow from zero by byte counts and list lengths, so they
  are natural numbers here; reaching the 64-bit limit would take \<open>2 ^ 63\<close> bytes of output.
\<close>

type_synonym PDFID = nat

record PDFWriter =
  w :: sink
  offset :: nat
  objects :: "nat list"
  pages :: "PDFID list"
  err :: "error option"
  infoId :: PDFID

definition nl :: string where
  "nl = [CHR 0x0A]"

text \<open>
  \<^verbatim>\<open>print\<close> (lines 177-187). \<^verbatim>\<open>io.WriteString\<close> is one call of the sink. The
  error the function returns is the value it leaves in \<open>err\<close>, and no caller reads it
  from anywhere else, so the model returns the writer only.
\<close>

definition print :: "string \<Rightarrow> PDFWriter \<Rightarrow> PDFWriter" where
  "print s p =
     (case Write (w p) s of (n, e, w1) \<Rightarrow>
        let p1 = p\<lparr>w := w1, offset := offset p + n\<rparr>
        in case e of
             Some x \<Rightarrow> p1\<lparr>err := Some x\<rparr>
           | None \<Rightarrow>
               (case Write (w p1) nl of (_, e2, w2) \<Rightarrow>
                  p1\<lparr>w := w2, err := e2, offset := offset p1 + 1\<rparr>))"

text \<open>
  \<^verbatim>\<open>printf\<close> (lines 189-199). \<^verbatim>\<open>fmt.Fprintf\<close> formats into a buffer and hands it to
  the sink in one call; the argument \<open>s\<close> is the formatted text, built at each call site
  with the functions of the previous sections.
\<close>

definition printf :: "string \<Rightarrow> PDFWriter \<Rightarrow> PDFWriter" where
  "printf s p =
     (case Write (w p) s of (n, e, w1) \<Rightarrow>
        let p1 = p\<lparr>w := w1, offset := offset p + n\<rparr>
        in case e of
             Some x \<Rightarrow> p1\<lparr>err := Some x\<rparr>
           | None \<Rightarrow>
               (case Write (w p1) nl of (_, e2, w2) \<Rightarrow>
                  p1\<lparr>w := w2, err := e2, offset := offset p1 + 1\<rparr>))"

text \<open>\<^verbatim>\<open>startObj\<close> (lines 201-207) and \<^verbatim>\<open>endObj\<close> (lines 209-213).\<close>

definition startObj :: "PDFWriter \<Rightarrow> PDFID \<times> PDFWriter" where
  "startObj p =
     (let p1 = p\<lparr>objects := objects p @ [offset p]\<rparr>;
          ident = length (objects p1);
          p2 = printf (dec ident @ '' 0 obj'') p1;
          p3 = print ''<<'' p2
      in (ident, p3))"

definition endObj :: "PDFWriter \<Rightarrow> PDFWriter" where
  "endObj p = print ''endobj'' (print ''>>'' p)"

text \<open>\<^verbatim>\<open>intObj\<close> (lines 215-222).\<close>

definition intObj :: "int \<Rightarrow> PDFWriter \<Rightarrow> PDFID \<times> PDFWriter" where
  "intObj n p =
     (let p1 = p\<lparr>objects := objects p @ [offset p]\<rparr>;
          ident = length (objects p1);
          p2 = printf (dec ident @ '' 0 obj'') p1;
          p3 = printf (fmt_d n) p2;
          p4 = print ''endobj'' p3
      in (ident, p4))"

text \<open>\<^verbatim>\<open>NewPDFWriter\<close> (lines 34-38): the zero value of every field but the sink.\<close>

definition NewPDFWriter :: "sink \<Rightarrow> PDFWriter \<times> error option" where
  "NewPDFWriter s =
     (let p = \<lparr>w = s, offset = 0, objects = [], pages = [], err = None, infoId = 0\<rparr>;
          p1 = print ''%PDF-1.3'' p
      in (p1, err p1))"

text \<open>
  \<^verbatim>\<open>WriteInfo\<close> (lines 40-48). \<open>stamp\<close> is the text of
  \<^verbatim>\<open>mtime.Format("20060102150405")\<close>, computed by the \<^verbatim>\<open>time\<close> package.
\<close>

definition WriteInfo :: "string \<Rightarrow> string \<Rightarrow> PDFWriter \<Rightarrow> error option \<times> PDFWriter" where
  "WriteInfo title stamp p =
     (case startObj p of (ident, p0) \<Rightarrow>
        let p1 = p0\<lparr>infoId := ident\<rparr>;
            p2 = printf (''/Title ('' @ title @ '')'') p1;
            p3 = printf (''/CreationDate (D:'' @ stamp @ '')'') p2;
            p4 = printf (''/ModDate (D:'' @ stamp @ '')'') p3;
            p5 = print ''/Producer (mvztopdf 1.0)'' p4;
            p6 = endObj p5
        in (err p6, p6))"

text \<open>\<^verbatim>\<open>writeStream\<close> (lines 122-128).\<close>

definition writeStream :: "string \<Rightarrow> PDFWriter \<Rightarrow> PDFWriter" where
  "writeStream data p =
     (let p1 = print ''stream'' p
      in case Write (w p1) data of (n, e, w2) \<Rightarrow>
           let p2 = p1\<lparr>w := w2, offset := offset p1 + n, err := e\<rparr>
           in print ''endstream'' p2)"

text \<open>\<^verbatim>\<open>writeStreamObject\<close> (lines 113-120).\<close>

definition writeStreamObject :: "string \<Rightarrow> PDFWriter \<Rightarrow> PDFID \<times> PDFWriter" where
  "writeStreamObject data p =
     (case startObj p of (ident, p1) \<Rightarrow>
        let p2 = printf (''/Length '' @ dec (length data)) p1;
            p3 = print ''>>'' p2;
            p4 = writeStream data p3;
            p5 = endObj p4
        in (ident, p5))"

text \<open>\<^verbatim>\<open>writeImage\<close> (lines 96-111); \<open>wd\<close> and \<open>ht\<close> are its parameters \<^verbatim>\<open>w\<close> and \<^verbatim>\<open>h\<close>.\<close>

definition writeImage :: "int \<Rightarrow> int \<Rightarrow> string \<Rightarrow> PDFWriter \<Rightarrow> PDFID \<times> PDFWriter" where
  "writeImage wd ht data p =
     (case startObj p of (ident, p1) \<Rightarrow>
        let p2 = print ''/Type /XObject'' p1;
            p3 = print ''/Subtype /Image'' p2;
            p4 = print ''/Name /I'' p3;
            p5 = print ''/Filter [ /DCTDecode ]'' p4;
            p6 = printf (''/Width '' @ fmt_d wd) p5;
            p7 = printf (''/Height '' @ fmt_d ht) p6;
            p8 = print ''/ColorSpace /DeviceRGB'' p7;
            p9 = print ''/BitsPerComponent 8'' p8;
            p10 = printf (''/Length '' @ dec (length data)) p9;
            p11 = print ''>>'' p10;
            p12 = writeStream data p11;
            p13 = endObj p12
        in (ident, p13))"

text \<open>
  A call that ends in \<^verbatim>\<open>panic\<close> is the value \<open>Panic\<close> with the message; a call that
  returns is \<open>Return\<close> with the identifier, the error and the writer.
\<close>

datatype 'a result = Panic string | Return 'a

text \<open>
  \<^verbatim>\<open>WritePage\<close> (lines 50-63). \<open>WritePage_object\<close> is its first part, lines 51-56,
  which writes the page object.
\<close>

definition WritePage_object :: "Length \<Rightarrow> Length \<Rightarrow> PDFWriter \<Rightarrow> PDFID \<times> PDFWriter" where
  "WritePage_object x y p =
     (case startObj p of (ident, p1) \<Rightarrow>
        let p2 = print ''/Type /Page'' p1;
            p3 = printf (''/MediaBox [0 0 '' @ fmt_f2 x @ '' '' @ fmt_f2 y @ '']'') p2;
            p4 = printf (''/CropBox [0 0 '' @ fmt_f2 x @ '' '' @ fmt_f2 y @ '']'') p3;
            p5 = printf (''/Contents '' @ dec (ident + 1) @ '' 0 R'') p4;
            p6 = endObj p5
        in (ident, p6))"

definition WritePage ::
  "Length \<Rightarrow> Length \<Rightarrow> string \<Rightarrow> PDFWriter \<Rightarrow> (PDFID \<times> error option \<times> PDFWriter) result" where
  "WritePage x y data p =
     (case WritePage_object x y p of (ident, p6) \<Rightarrow>
        case writeStreamObject data p6 of (streamId, p7) \<Rightarrow>
          if err p7 = None \<and> streamId \<noteq> ident + 1
          then Panic ''internal error: streamId != id+1''
          else let p8 = p7\<lparr>pages := pages p7 @ [ident]\<rparr>
               in Return (ident, err p8, p8))"

text \<open>
  \<^verbatim>\<open>WriteJPEGPage\<close> (lines 67-94). Of the image only its bounds are read. \<open>Dx\<close> and
  \<open>Dy\<close> are the methods of \<^verbatim>\<open>image.Rectangle\<close>, subtractions of 64-bit integers.
  \<open>points\<close> is the expression \<^verbatim>\<open>Length(px) / 150 * INCH\<close> of lines 68 and 69;
  \<open>WriteJPEGPage_object\<close> is lines 70-76 and \<open>WriteJPEGPage_content\<close> the buffer of
  lines 78-82.
\<close>

record Rectangle =
  MinX :: int
  MinY :: int
  MaxX :: int
  MaxY :: int

definition wrap64 :: "int \<Rightarrow> int" where
  "wrap64 i = (i + 2 ^ 63) mod 2 ^ 64 - 2 ^ 63"

definition Dx :: "Rectangle \<Rightarrow> int" where
  "Dx r = wrap64 (MaxX r - MinX r)"

definition Dy :: "Rectangle \<Rightarrow> int" where
  "Dy r = wrap64 (MaxY r - MinY r)"

definition points :: "int \<Rightarrow> Length" where
  "points px = Finite (f64_mul (f64_div (f64_of_int px) 150) INCH)"

definition WriteJPEGPage_object :: "Length \<Rightarrow> Length \<Rightarrow> PDFWriter \<Rightarrow> PDFID \<times> PDFWriter" where
  "WriteJPEGPage_object x y p =
     (case startObj p of (ident, p1) \<Rightarrow>
        let p2 = print ''/Type /Page'' p1;
            p3 = printf (''/MediaBox [0 0 '' @ fmt_f2 x @ '' '' @ fmt_f2 y @ '']'') p2;
            p4 = printf (''/CropBox [0 0 '' @ fmt_f2 x @ '' '' @ fmt_f2 y @ '']'') p3;
            p5 = printf (''/Contents '' @ dec (ident + 1) @ '' 0 R'') p4;
            p6 = printf (''/Resources << /XObject << /I '' @ dec (ident + 2) @ '' 0 R >> >>'') p5;
            p7 = endObj p6
        in (ident, p7))"

definition WriteJPEGPage_content :: "Length \<Rightarrow> Length \<Rightarrow> string" where
  "WriteJPEGPage_content x y =
     (''q'' @ nl) @ (fmt_f2 x @ '' 0 0 '' @ fmt_f2 y @ '' 0 0 cm'' @ nl) @ (''/I Do'' @ nl)
       @ (''Q'' @ nl)"

definition WriteJPEGPage ::
  "Rectangle \<Rightarrow> string \<Rightarrow> PDFWriter \<Rightarrow> (PDFID \<times> error option \<times> PDFWriter) result" where
  "WriteJPEGPage img data p =
     (let x = points (Dx img);
          y = points (Dy img)
      in case WriteJPEGPage_object x y p of (ident, p7) \<Rightarrow>
           case writeStreamObject (WriteJPEGPage_content x y) p7 of (streamId, p8) \<Rightarrow>
             if err p8 = None \<and> streamId \<noteq> ident + 1
             then Panic ''internal error: streamId != id+1''
             else case writeImage (Dx img) (Dy img) data p8 of (imgId, p9) \<Rightarrow>
                    if err p9 = None \<and> imgId \<noteq> ident + 2
                    then Panic ''internal error: imgId != id+2''
                    else let p10 = p9\<lparr>pages := pages p9 @ [ident]\<rparr>
                         in Return (ident, err p10, p10))"

text \<open>
  \<^verbatim>\<open>Flush\<close> (lines 130-171). \<open>Flush_kids\<close> is the loop of lines 135-137 filling the
  buffer, \<open>Flush_xref\<close> the loop of lines 154-156.
\<close>

definition Flush_kids :: "PDFID list \<Rightarrow> string" where
  "Flush_kids ps = foldl (\<lambda>buf page. buf @ dec page @ '' 0 R '') [] ps"

definition Flush_xref :: "nat list \<Rightarrow> PDFWriter \<Rightarrow> PDFWriter" where
  "Flush_xref offs p = foldl (\<lambda>q off. printf (pad10 off @ '' 00000 n'') q) p offs"

definition Flush :: "PDFWriter \<Rightarrow> error option \<times> PDFWriter" where
  "Flush p =
     (case startObj p of (pagesId, p1) \<Rightarrow>
        let p2 = print ''/Type /Pages'' p1;
            p3 = printf (''/Kids [ '' @ Flush_kids (pages p2) @ '']'') p2;
            p4 = printf (''/Count '' @ dec (length (pages p3))) p3;
            p5 = endObj p4
        in if err p5 \<noteq> None then (err p5, p5)
           else case startObj p5 of (rootId, p6) \<Rightarrow>
             let p7 = print ''/Type /Catalog'' p6;
                 p8 = printf (''/Pages '' @ dec pagesId @ '' 0 R'') p7;
                 p9 = endObj p8;
                 xrefOff = offset p9;
                 p10 = print ''xref'' p9;
                 p11 = printf (''0 '' @ dec (length (objects p10) + 1)) p10;
                 p12 = print ''0000000000 65535 f'' p11;
                 p13 = Flush_xref (objects p12) p12;
                 p14 = print ''trailer'' p13;
                 p15 = print ''<<'' p14;
                 p16 = printf (''/Size '' @ dec (length (objects p15) + 1)) p15;
                 p17 = printf (''/Info '' @ dec (infoId p16) @ '' 0 R'') p16;
                 p18 = printf (''/Root '' @ dec rootId @ '' 0 R'') p17;
                 p19 = printf (''/ID [<'' @ ''deadbeef'' @ ''> <'' @ ''deadbeef'' @ ''>]'') p18;
                 p20 = print ''>>'' p19;
                 p21 = print ''startxref'' p20;
                 p22 = printf (dec xrefOff) p21;
                 p23 = print ''%%EOF'' p22
             in (err p23, p23))"


section \<open>Executions in which the sink takes every write\<close>

text \<open>
  The definitions of this section are not part of the program: they describe what an
  operation amounts to when none of its writes is rejected. \<open>emit k t\<close> is the effect of
  \<open>k\<close> accepted calls that carried the text \<open>t\<close>. An operation is a sequence of lines
  sent with \<open>print\<close>, raw payloads sent with a bare \<^verbatim>\<open>Write\<close> (\<open>raw\<close>, lines 124-126)
  and entries added to the object table (\<open>Begin\<close>, lines 202 and 216); \<open>run\<close> executes
  such a sequence on the program's own primitives, and \<open>clean_run\<close> is the state it
  reaches when nothing is rejected: \<open>text_of\<close> has been appended to the output in
  \<open>ncalls\<close> calls, and \<open>marks\<close> are the offsets recorded in the object table.
\<close>

definition took :: "nat \<Rightarrow> string \<Rightarrow> sink \<Rightarrow> sink" where
  "took k t s = s\<lparr>accepted := accepted s @ t, script := drop k (script s), calls := calls s + k\<rparr>"

definition emit :: "nat \<Rightarrow> string \<Rightarrow> PDFWriter \<Rightarrow> PDFWriter" where
  "emit k t p = p\<lparr>w := took k t (w p), offset := offset p + length t, err := None\<rparr>"

definition raw :: "string \<Rightarrow> PDFWriter \<Rightarrow> PDFWriter" where
  "raw data p =
     (case Write (w p) data of (n, e, w2) \<Rightarrow> p\<lparr>w := w2, offset := offset p + n, err := e\<rparr>)"

datatype action = Line string | Raw string | Begin

fun act :: "action \<Rightarrow> PDFWriter \<Rightarrow> PDFWriter" where
  "act (Line s) p = print s p"
| "act (Raw d) p = raw d p"
| "act Begin p = p\<lparr>objects := objects p @ [offset p]\<rparr>"

fun run :: "action list \<Rightarrow> PDFWriter \<Rightarrow> PDFWriter" where
  "run [] p = p"
| "run (a # as) p = run as (act a p)"

fun text_of :: "action list \<Rightarrow> string" where
  "text_of [] = []"
| "text_of (Line s # as) = s @ nl @ text_of as"
| "text_of (Raw d # as) = d @ text_of as"
| "text_of (Begin # as) = text_of as"

fun ncalls :: "action list \<Rightarrow> nat" where
  "ncalls [] = 0"
| "ncalls (Line s # as) = 2 + ncalls as"
| "ncalls (Raw d # as) = 1 + ncalls as"
| "ncalls (Begin # as) = ncalls as"

fun marks :: "nat \<Rightarrow> action list \<Rightarrow> nat list" where
  "marks off [] = []"
| "marks off (Line s # as) = marks (off + length s + 1) as"
| "marks off (Raw d # as) = marks (off + length d) as"
| "marks off (Begin # as) = off # marks off as"

definition clean_run :: "action list \<Rightarrow> PDFWriter \<Rightarrow> PDFWriter" where
  "clean_run as p =
     p\<lparr>w := took (ncalls as) (text_of as) (w p),
       offset := offset p + length (text_of as),
       objects := objects p @ marks (offset p) as,
       err := (if ncalls as = 0 then err p else None)\<rparr>"

definition obj_head :: "nat \<Rightarrow> action list" where
  "obj_head n = [Begin, Line (dec n @ '' 0 obj''), Line ''<<'']"

definition obj_tail :: "action list" where
  "obj_tail = [Line ''>>'', Line ''endobj'']"

definition stream_part :: "string \<Rightarrow> action list" where
  "stream_part data = [Line ''stream'', Raw data, Line ''endstream'']"

definition info_actions :: "nat \<Rightarrow> string \<Rightarrow> string \<Rightarrow> action list" where
  "info_actions n title stamp =
     obj_head n @
     [Line (''/Title ('' @ title @ '')''),
      Line (''/CreationDate (D:'' @ stamp @ '')''),
      Line (''/ModDate (D:'' @ stamp @ '')''),
      Line ''/Producer (mvztopdf 1.0)''] @ obj_tail"

definition stream_object_actions :: "nat \<Rightarrow> string \<Rightarrow> action list" where
  "stream_object_actions n data =
     obj_head n @ [Line (''/Length '' @ dec (length data)), Line ''>>''] @ stream_part data
       @ obj_tail"

definition image_actions :: "nat \<Rightarrow> int \<Rightarrow> int \<Rightarrow> string \<Rightarrow> action list" where
  "image_actions n wd ht data =
     obj_head n @
     [Line ''/Type /XObject'', Line ''/Subtype /Image'', Line ''/Name /I'',
      Line ''/Filter [ /DCTDecode ]'', Line (''/Width '' @ fmt_d wd),
      Line (''/Height '' @ fmt_d ht), Line ''/ColorSpace /DeviceRGB'',
      Line ''/BitsPerComponent 8'', Line (''/Length '' @ dec (length data)), Line ''>>''] @
     stream_part data @ obj_tail"

definition page_object_actions :: "nat \<Rightarrow> Length \<Rightarrow> Length \<Rightarrow> action list" where
  "page_object_actions n x y =
     obj_head n @
     [Line ''/Type /Page'',
      Line (''/MediaBox [0 0 '' @ fmt_f2 x @ '' '' @ fmt_f2 y @ '']''),
      Line (''/CropBox [0 0 '' @ fmt_f2 x @ '' '' @ fmt_f2 y @ '']''),
      Line (''/Contents '' @ dec (n + 1) @ '' 0 R'')] @ obj_tail"

definition jpeg_page_object_actions :: "nat \<Rightarrow> Length \<Rightarrow> Length \<Rightarrow> action list" where
  "jpeg_page_object_actions n x y =
     obj_head n @
     [Line ''/Type /Page'',
      Line (''/MediaBox [0 0 '' @ fmt_f2 x @ '' '' @ fmt_f2 y @ '']''),
      Line (''/CropBox [0 0 '' @ fmt_f2 x @ '' '' @ fmt_f2 y @ '']''),
      Line (''/Contents '' @ dec (n + 1) @ '' 0 R''),
      Line (''/Resources << /XObject << /I '' @ dec (n + 2) @ '' 0 R >> >>'')] @ obj_tail"

fun nbegin :: "action list \<Rightarrow> nat" where
  "nbegin [] = 0"
| "nbegin (Begin # as) = Suc (nbegin as)"
| "nbegin (a # as) = nbegin as"

definition page_actions :: "nat \<Rightarrow> Length \<Rightarrow> Length \<Rightarrow> string \<Rightarrow> action list" where
  "page_actions n x y data = page_object_actions n x y @ stream_object_actions (Suc n) data"

definition jpeg_page_actions :: "nat \<Rightarrow> Rectangle \<Rightarrow> string \<Rightarrow> action list" where
  "jpeg_page_actions n img data =
     jpeg_page_object_actions n (points (Dx img)) (points (Dy img)) @
     stream_object_actions (Suc n) (WriteJPEGPage_content (points (Dx img)) (points (Dy img))) @
     image_actions (Suc (Suc n)) (Dx img) (Dy img) data"

definition pages_tree_actions :: "nat \<Rightarrow> PDFID list \<Rightarrow> action list" where
  "pages_tree_actions n ps =
     obj_head n @
     [Line ''/Type /Pages'',
      Line (''/Kids [ '' @ concat (map (\<lambda>page. dec page @ '' 0 R '') ps) @ '']''),
      Line (''/Count '' @ dec (length ps))] @ obj_tail"

definition catalog_actions :: "nat \<Rightarrow> PDFID \<Rightarrow> action list" where
  "catalog_actions n pagesId =
     obj_head n @ [Line ''/Type /Catalog'', Line (''/Pages '' @ dec pagesId @ '' 0 R'')]
       @ obj_tail"

definition xref_actions :: "nat list \<Rightarrow> action list" where
  "xref_actions offs =
     [Line ''xref'', Line (''0 '' @ dec (length offs + 1)), Line ''0000000000 65535 f''] @
     map (\<lambda>off. Line (pad10 off @ '' 00000 n'')) offs"

definition trailer_actions :: "nat \<Rightarrow> PDFID \<Rightarrow> PDFID \<Rightarrow> nat \<Rightarrow> action list" where
  "trailer_actions sz info rootId xrefOff =
     [Line ''trailer'', Line ''<<'', Line (''/Size '' @ dec sz),
      Line (''/Info '' @ dec info @ '' 0 R''), Line (''/Root '' @ dec rootId @ '' 0 R''),
      Line ''/ID [<deadbeef> <deadbeef>]'', Line ''>>'', Line ''startxref'',
      Line (dec xrefOff), Line ''%%EOF'']"

definition flush_actions :: "PDFWriter \<Rightarrow> action list" where
  "flush_actions p =
     (let n = Suc (length (objects p));
          a = pages_tree_actions n (pages p);
          b = catalog_actions (Suc n) n;
          offs = objects p @ marks (offset p) (a @ b)
      in a @ b @ xref_actions offs @
         trailer_actions (length offs + 1) (infoId p) (Suc n) (offset p + length (text_of (a @ b))))"

definition accepting :: "sink \<Rightarrow> bool" where
  "accepting s \<longleftrightarrow> list_all (\<lambda>x. x = Accept) (script s) \<and> fallback s = Accept"



fun nwrites :: "action list \<Rightarrow> nat" where
  "nwrites [] = 0"
| "nwrites (Begin # as) = nwrites as"
| "nwrites (a # as) = Suc (nwrites as)"

datatype operation = Info string string | Page Length Length string | JPEGPage Rectangle string

fun perform :: "operation \<Rightarrow> PDFWriter \<Rightarrow> PDFWriter result" where
  "perform (Info title stamp) p = Return (snd (WriteInfo title stamp p))"
| "perform (Page x y data) p =
     (case WritePage x y data p of Panic m \<Rightarrow> Panic m | Return (i, e, p') \<Rightarrow> Return p')"
| "perform (JPEGPage img data) p =
     (case WriteJPEGPage img data p of Panic m \<Rightarrow> Panic m | Return (i, e, p') \<Rightarrow> Return p')"

fun session :: "operation list \<Rightarrow> PDFWriter \<Rightarrow> PDFWriter result" where
  "session [] p = Return p"
| "session (a # as) p =
     (case perform a p of Panic m \<Rightarrow> Panic m | Return p' \<Rightarrow> session as p')"

definition document :: "sink \<Rightarrow> operation list \<Rightarrow> (error option \<times> PDFWriter) result" where
  "document s ops =
     (case session ops (fst (NewPDFWriter s)) of
        Panic m \<Rightarrow> Panic m
      | Return p \<Rightarrow> Return (Flush p))"

fun objects_of :: "operation \<Rightarrow> nat" where
  "objects_of (Info title stamp) = 1"
| "objects_of (Page x y data) = 2"
| "objects_of (JPEGPage img data) = 3"

fun page_ids :: "nat \<Rightarrow> operation list \<Rightarrow> PDFID list" where
  "page_ids n [] = []"
| "page_ids n (Info title stamp # as) = page_ids (n + 1) as"
| "page_ids n (Page x y data # as) = Suc n # page_ids (n + 2) as"
| "page_ids n (JPEGPage img data # as) = Suc n # page_ids (n + 3) as"

fun info_ident :: "nat \<Rightarrow> PDFID \<Rightarrow> operation list \<Rightarrow> PDFID" where
  "info_ident n cur [] = cur"
| "info_ident n cur (Info title stamp # as) = info_ident (n + 1) (Suc n) as"
| "info_ident n cur (Page x y data # as) = info_ident (n + 2) cur as"
| "info_ident n cur (JPEGPage img data # as) = info_ident (n + 3) cur as"

fun op_actions :: "nat \<Rightarrow> operation \<Rightarrow> action list" where
  "op_actions n (Info title stamp) = info_actions (Suc n) title stamp"
| "op_actions n (Page x y data) = page_actions (Suc n) x y data"
| "op_actions n (JPEGPage img data) = jpeg_page_actions (Suc n) img data"

fun session_actions :: "nat \<Rightarrow> operation list \<Rightarrow> action list" where
  "session_actions n [] = []"
| "session_actions n (a # as) = op_actions n a @ session_actions (n + objects_of a) as"

definition blank :: "sink \<Rightarrow> PDFWriter" where
  "blank s = \<lparr>w = s, offset = 0, objects = [], pages = [], err = None, infoId = 0\<rparr>"

definition before_flush :: "sink \<Rightarrow> operation list \<Rightarrow> PDFWriter" where
  "before_flush s ops =
     (clean_run (Line ''%PDF-1.3'' # session_actions 0 ops) (blank s))
       \<lparr>pages := page_ids 0 ops, infoId := info_ident 0 0 ops\<rparr>"

definition line_at :: "string \<Rightarrow> nat \<Rightarrow> string \<Rightarrow> bool" where
  "line_at out pos l \<longleftrightarrow>
     take (length l + 1) (drop pos out) = l @ nl \<and>
     (pos = 0 \<or> out ! (pos - 1) = CHR 0x0A)"

definition well_placed :: "PDFWriter \<Rightarrow> bool" where
  "well_placed p \<longleftrightarrow>
     offset p = length (accepted (w p)) \<and>
     (accepted (w p) = [] \<or> last (accepted (w p)) = CHR 0x0A) \<and>
     (\<forall>k < length (objects p).
        line_at (accepted (w p)) (objects p ! k) (dec (Suc k) @ '' 0 obj''))"

definition ends_nl :: "action list \<Rightarrow> bool" where
  "ends_nl as \<longleftrightarrow> (case rev as of Line s # bs \<Rightarrow> True | _ \<Rightarrow> False)"

definition xref_entry :: "nat \<Rightarrow> string" where
  "xref_entry off = pad10 off @ '' 00000 n'' @ nl"

definition xref_section :: "nat list \<Rightarrow> string" where
  "xref_section offs =
     ''xref'' @ nl @ ''0 '' @ dec (length offs + 1) @ nl @ ''0000000000 65535 f'' @ nl @
     concat (map xref_entry offs)"

definition trailer_section :: "nat \<Rightarrow> PDFID \<Rightarrow> PDFID \<Rightarrow> nat \<Rightarrow> string" where
  "trailer_section sz info rootId xrefOff =
     ''trailer'' @ nl @ ''<<'' @ nl @ ''/Size '' @ dec sz @ nl @
     ''/Info '' @ dec info @ '' 0 R'' @ nl @ ''/Root '' @ dec rootId @ '' 0 R'' @ nl @
     ''/ID [<deadbeef> <deadbeef>]'' @ nl @ ''>>'' @ nl @
     ''startxref'' @ nl @ dec xrefOff @ nl @ ''%%EOF'' @ nl"

definition pages_tree_object :: "PDFID \<Rightarrow> PDFID list \<Rightarrow> string" where
  "pages_tree_object n ps =
     dec n @ '' 0 obj'' @ nl @ ''<<'' @ nl @ ''/Type /Pages'' @ nl @
     ''/Kids [ '' @ concat (map (\<lambda>page. dec page @ '' 0 R '') ps) @ '']'' @ nl @
     ''/Count '' @ dec (length ps) @ nl @ ''>>'' @ nl @ ''endobj'' @ nl"

definition catalog_object :: "PDFID \<Rightarrow> PDFID \<Rightarrow> string" where
  "catalog_object n pagesId =
     dec n @ '' 0 obj'' @ nl @ ''<<'' @ nl @ ''/Type /Catalog'' @ nl @
     ''/Pages '' @ dec pagesId @ '' 0 R'' @ nl @ ''>>'' @ nl @ ''endobj'' @ nl"

definition xref_entry_offset :: "string \<Rightarrow> nat" where
  "xref_entry_offset entry = undec (takeWhile (\<lambda>c. c \<noteq> CHR '' '') entry)"


fun is_info :: "operation \<Rightarrow> bool" where
  "is_info (Info title stamp) = True"
| "is_info (Page x y data) = False"
| "is_info (JPEGPage img data) = False"


section \<open>Basic facts\<close>

lemma took_took: "took k2 t2 (took k1 t1 s) = took (k1 + k2) (t1 @ t2) s"
  by (simp add: took_def add.commute)

lemma emit_emit: "emit k2 t2 (emit k1 t1 p) = emit (k1 + k2) (t1 @ t2) p"
  by (simp add: emit_def took_took)

lemma took_fields [simp]:
  "accepted (took k t s) = accepted s @ t"
  "rejected (took k t s) = rejected s"
  "calls (took k t s) = calls s + k"
  "fallback (took k t s) = fallback s"
  "script (took k t s) = drop k (script s)"
  by (simp_all add: took_def)

lemma emit_fields [simp]:
  "w (emit k t p) = took k t (w p)"
  "offset (emit k t p) = offset p + length t"
  "err (emit k t p) = None"
  "objects (emit k t p) = objects p"
  "pages (emit k t p) = pages p"
  "infoId (emit k t p) = infoId p"
  by (simp_all add: emit_def)

lemma emit_upd:
  "emit k t (p\<lparr>objects := os\<rparr>) = (emit k t p)\<lparr>objects := os\<rparr>"
  "emit k t (p\<lparr>pages := ps\<rparr>) = (emit k t p)\<lparr>pages := ps\<rparr>"
  "emit k t (p\<lparr>infoId := i\<rparr>) = (emit k t p)\<lparr>infoId := i\<rparr>"
  by (simp_all add: emit_def)

lemma Write_rejected_mono: "rejected s \<le> rejected (snd (snd (Write s d)))"
  by (simp add: Write_def Let_def split: outcome.split)

lemma Write_clean:
  assumes "rejected (snd (snd (Write s d))) \<le> rejected s"
  shows "Write s d = (length d, None, took 1 d s)"
  using assms by (simp add: Write_def Let_def took_def drop_Suc split: outcome.splits)

lemma printf_eq_print: "printf = print"
  by (simp add: fun_eq_iff printf_def print_def)

lemma print_rejected_mono: "rejected (w p) \<le> rejected (w (print s p))"
  by (simp add: print_def Write_def Let_def split: outcome.split prod.split option.split)

lemma print_clean:
  assumes "rejected (w (print s p)) \<le> rejected (w p)"
  shows "print s p = emit 2 (s @ nl) p"
  using assms
  by (simp add: print_def Write_def Let_def emit_def took_def drop_Suc numeral_2_eq_2 nl_def
      split: outcome.splits prod.splits option.splits)

lemma print_keeps [simp]:
  "objects (print s p) = objects p"
  "pages (print s p) = pages p"
  "infoId (print s p) = infoId p"
  by (simp_all add: print_def Let_def split: prod.split option.split)

lemma print_upd:
  "print s (p\<lparr>objects := os\<rparr>) = (print s p)\<lparr>objects := os\<rparr>"
  "print s (p\<lparr>pages := ps\<rparr>) = (print s p)\<lparr>pages := ps\<rparr>"
  "print s (p\<lparr>infoId := i\<rparr>) = (print s p)\<lparr>infoId := i\<rparr>"
  by (simp_all add: print_def Let_def split: prod.split option.split)

lemma raw_rejected_mono: "rejected (w p) \<le> rejected (w (raw d p))"
  by (simp add: raw_def Write_def Let_def split: outcome.split)

lemma raw_clean:
  assumes "rejected (w (raw d p)) \<le> rejected (w p)"
  shows "raw d p = emit 1 d p"
  using assms
  by (simp add: raw_def Write_def Let_def emit_def took_def drop_Suc split: outcome.splits)

lemma raw_keeps [simp]:
  "objects (raw d p) = objects p"
  "pages (raw d p) = pages p"
  "infoId (raw d p) = infoId p"
  by (simp_all add: raw_def split: prod.split)

lemma raw_upd:
  "raw d (p\<lparr>objects := os\<rparr>) = (raw d p)\<lparr>objects := os\<rparr>"
  "raw d (p\<lparr>pages := ps\<rparr>) = (raw d p)\<lparr>pages := ps\<rparr>"
  "raw d (p\<lparr>infoId := i\<rparr>) = (raw d p)\<lparr>infoId := i\<rparr>"
  by (simp_all add: raw_def split: prod.split)

lemma took_0 [simp]: "took 0 [] s = s"
  by (simp add: took_def)

lemma act_rejected_mono: "rejected (w p) \<le> rejected (w (act a p))"
  by (cases a) (simp_all add: print_rejected_mono raw_rejected_mono)

lemma run_rejected_mono: "rejected (w p) \<le> rejected (w (run as p))"
proof (induction as arbitrary: p)
  case Nil
  show ?case by simp
next
  case (Cons a as)
  have "rejected (w p) \<le> rejected (w (act a p))" by (rule act_rejected_mono)
  also have "\<dots> \<le> rejected (w (run as (act a p)))" by (rule Cons.IH)
  finally show ?case by simp
qed

lemma act_clean:
  assumes "rejected (w (act a p)) \<le> rejected (w p)"
  shows "act a p = clean_run [a] p"
proof (cases a)
  case (Line s)
  with assms have "print s p = emit 2 (s @ nl) p" by (simp add: print_clean)
  with Line show ?thesis by (simp add: clean_run_def emit_def)
next
  case (Raw d)
  with assms have "raw d p = emit 1 d p" by (simp add: raw_clean)
  with Raw show ?thesis by (simp add: clean_run_def emit_def)
next
  case Begin
  then show ?thesis by (simp add: clean_run_def)
qed

lemma clean_run_Cons: "clean_run as (clean_run [a] p) = clean_run (a # as) p"
  by (cases a) (simp_all add: clean_run_def took_took nl_def)

lemma run_clean:
  assumes "rejected (w (run as p)) \<le> rejected (w p)"
  shows "run as p = clean_run as p"
  using assms
proof (induction as arbitrary: p)
  case Nil
  show ?case by (simp add: clean_run_def)
next
  case (Cons a as)
  have m1: "rejected (w p) \<le> rejected (w (act a p))" by (rule act_rejected_mono)
  have m2: "rejected (w (act a p)) \<le> rejected (w (run as (act a p)))"
    by (rule run_rejected_mono)
  from Cons.prems have h: "rejected (w (run as (act a p))) \<le> rejected (w p)" by simp
  from m2 h have "rejected (w (act a p)) \<le> rejected (w p)" by (rule le_trans)
  then have a: "act a p = clean_run [a] p" by (rule act_clean)
  from h m1 have "rejected (w (run as (act a p))) \<le> rejected (w (act a p))" by (rule le_trans)
  then have "run as (act a p) = clean_run as (act a p)" by (rule Cons.IH)
  with a show ?case by (simp add: clean_run_Cons)
qed

lemma run_append: "run (as @ bs) p = run bs (run as p)"
  by (induction as arbitrary: p) simp_all

lemma length_marks [simp]: "length (marks a as) = nbegin as"
  by (induction a as rule: marks.induct) simp_all

lemma nbegin_append [simp]: "nbegin (as @ bs) = nbegin as + nbegin bs"
  by (induction as rule: nbegin.induct) simp_all

lemma act_pages [simp]: "pages (act a p) = pages p"
  by (cases a) simp_all

lemma act_infoId [simp]: "infoId (act a p) = infoId p"
  by (cases a) simp_all

lemma run_pages [simp]: "pages (run as p) = pages p"
  by (induction as arbitrary: p) simp_all

lemma run_infoId [simp]: "infoId (run as p) = infoId p"
  by (induction as arbitrary: p) simp_all

lemma act_objects_length [simp]:
  "length (objects (act a p)) = length (objects p) + nbegin [a]"
  by (cases a) simp_all

lemma run_objects_length [simp]:
  "length (objects (run as p)) = length (objects p) + nbegin as"
proof (induction as arbitrary: p)
  case Nil
  show ?case by simp
next
  case (Cons a as)
  show ?case using Cons.IH [of "act a p"] by (cases a) simp_all
qed

lemma act_upd_pages: "act a (p\<lparr>pages := ps\<rparr>) = (act a p)\<lparr>pages := ps\<rparr>"
  by (cases a) (simp_all add: print_upd raw_upd)

lemma act_upd_infoId: "act a (p\<lparr>infoId := i\<rparr>) = (act a p)\<lparr>infoId := i\<rparr>"
  by (cases a) (simp_all add: print_upd raw_upd)

lemma run_upd_pages: "run as (p\<lparr>pages := ps\<rparr>) = (run as p)\<lparr>pages := ps\<rparr>"
  by (induction as arbitrary: p) (simp_all add: act_upd_pages)

lemma run_upd_infoId: "run as (p\<lparr>infoId := i\<rparr>) = (run as p)\<lparr>infoId := i\<rparr>"
  by (induction as arbitrary: p) (simp_all add: act_upd_infoId)

lemma startObj_run:
  "startObj p = (Suc (length (objects p)), run (obj_head (Suc (length (objects p)))) p)"
  by (simp add: startObj_def obj_head_def Let_def printf_eq_print)

lemma endObj_run: "endObj p = run obj_tail p"
  by (simp add: endObj_def obj_tail_def)

lemma writeStream_run: "writeStream data p = run (stream_part data) p"
  by (simp add: writeStream_def stream_part_def raw_def Let_def split: prod.split)

lemma nbegin_obj_head [simp]: "nbegin (obj_head n) = 1"
  by (simp add: obj_head_def)

lemma WriteInfo_run:
  "WriteInfo title stamp p =
     (let n = Suc (length (objects p)); q = run (info_actions n title stamp) p
      in (err q, q\<lparr>infoId := n\<rparr>))"
  by (simp add: WriteInfo_def startObj_run endObj_run Let_def printf_eq_print info_actions_def
      run_append print_upd run_upd_infoId)

lemma writeStreamObject_run:
  "writeStreamObject data p =
     (Suc (length (objects p)), run (stream_object_actions (Suc (length (objects p))) data) p)"
  by (simp add: writeStreamObject_def startObj_run endObj_run writeStream_run Let_def
      printf_eq_print stream_object_actions_def run_append)

lemma writeImage_run:
  "writeImage wd ht data p =
     (Suc (length (objects p)), run (image_actions (Suc (length (objects p))) wd ht data) p)"
  by (simp add: writeImage_def startObj_run endObj_run writeStream_run Let_def
      printf_eq_print image_actions_def run_append)

lemma WritePage_object_run:
  "WritePage_object x y p =
     (Suc (length (objects p)), run (page_object_actions (Suc (length (objects p))) x y) p)"
  by (simp add: WritePage_object_def startObj_run endObj_run Let_def
      printf_eq_print page_object_actions_def run_append)

lemma WriteJPEGPage_object_run:
  "WriteJPEGPage_object x y p =
     (Suc (length (objects p)), run (jpeg_page_object_actions (Suc (length (objects p))) x y) p)"
  by (simp add: WriteJPEGPage_object_def startObj_run endObj_run Let_def
      printf_eq_print jpeg_page_object_actions_def run_append)

lemma nbegin_obj_tail [simp]: "nbegin obj_tail = 0"
  by (simp add: obj_tail_def)

lemma nbegin_stream_part [simp]: "nbegin (stream_part d) = 0"
  by (simp add: stream_part_def)

lemma nbegin_objects [simp]:
  "nbegin (info_actions n t s) = 1"
  "nbegin (stream_object_actions n d) = 1"
  "nbegin (image_actions n wd ht d) = 1"
  "nbegin (page_object_actions n x y) = 1"
  "nbegin (jpeg_page_object_actions n x y) = 1"
  by (simp_all add: info_actions_def stream_object_actions_def image_actions_def
      page_object_actions_def jpeg_page_object_actions_def)

lemma WritePage_run:
  "WritePage x y data p =
     (let n = Suc (length (objects p)); q = run (page_actions n x y data) p
      in Return (n, err q, q\<lparr>pages := pages p @ [n]\<rparr>))"
  by (simp add: WritePage_def WritePage_object_run writeStreamObject_run Let_def
      page_actions_def run_append)

lemma WriteJPEGPage_run:
  "WriteJPEGPage img data p =
     (let n = Suc (length (objects p)); q = run (jpeg_page_actions n img data) p
      in Return (n, err q, q\<lparr>pages := pages p @ [n]\<rparr>))"
  by (simp add: WriteJPEGPage_def WriteJPEGPage_object_run writeStreamObject_run
      writeImage_run Let_def jpeg_page_actions_def run_append)

lemma NewPDFWriter_run:
  "NewPDFWriter s =
     (let q = run [Line ''%PDF-1.3'']
                \<lparr>w = s, offset = 0, objects = [], pages = [], err = None, infoId = 0\<rparr>
      in (q, err q))"
  by (simp add: NewPDFWriter_def Let_def)

lemma Flush_kids_eq: "Flush_kids ps = concat (map (\<lambda>page. dec page @ '' 0 R '') ps)"
proof -
  have "foldl (\<lambda>buf page. buf @ dec page @ '' 0 R '') acc ps
        = acc @ concat (map (\<lambda>page. dec page @ '' 0 R '') ps)" for acc
    by (induction ps arbitrary: acc) simp_all
  then show ?thesis by (simp add: Flush_kids_def)
qed

lemma Flush_xref_run: "Flush_xref offs p = run (map (\<lambda>off. Line (pad10 off @ '' 00000 n'')) offs) p"
proof -
  have "foldl (\<lambda>q off. printf (pad10 off @ '' 00000 n'') q) p offs
        = run (map (\<lambda>off. Line (pad10 off @ '' 00000 n'')) offs) p" for p
    by (induction offs arbitrary: p) (simp_all add: printf_eq_print)
  then show ?thesis by (simp add: Flush_xref_def)
qed

lemma run_map_Line_objects [simp]: "objects (run (map (\<lambda>x. Line (f x)) xs) p) = objects p"
  by (induction xs arbitrary: p) simp_all

lemma Flush_run:
  "Flush p =
     (let n = Suc (length (objects p));
          p5 = run (pages_tree_actions n (pages p)) p
      in if err p5 \<noteq> None then (err p5, p5)
         else let p9 = run (catalog_actions (Suc n) n) p5;
                  q = run (xref_actions (objects p9) @
                           trailer_actions (length (objects p9) + 1) (infoId p) (Suc n) (offset p9))
                        p9
              in (err q, q))"
  by (simp add: Flush_def startObj_run endObj_run Let_def printf_eq_print Flush_kids_eq
      Flush_xref_run pages_tree_actions_def catalog_actions_def xref_actions_def
      trailer_actions_def run_append)

lemma text_of_append [simp]: "text_of (as @ bs) = text_of as @ text_of bs"
  by (induction as rule: text_of.induct) simp_all

lemma ncalls_append [simp]: "ncalls (as @ bs) = ncalls as + ncalls bs"
  by (induction as rule: ncalls.induct) simp_all

lemma marks_append [simp]:
  "marks off (as @ bs) = marks off as @ marks (off + length (text_of as)) bs"
  by (induction off as rule: marks.induct) (simp_all add: nl_def add.assoc)

lemma clean_run_append: "clean_run bs (clean_run as p) = clean_run (as @ bs) p"
  by (simp add: clean_run_def took_took)

lemma clean_run_fields [simp]:
  "accepted (w (clean_run as p)) = accepted (w p) @ text_of as"
  "rejected (w (clean_run as p)) = rejected (w p)"
  "calls (w (clean_run as p)) = calls (w p) + ncalls as"
  "offset (clean_run as p) = offset p + length (text_of as)"
  "objects (clean_run as p) = objects p @ marks (offset p) as"
  "pages (clean_run as p) = pages p"
  "infoId (clean_run as p) = infoId p"
  "err (clean_run as p) = (if ncalls as = 0 then err p else None)"
  by (simp_all add: clean_run_def)

lemma run_run_clean:
  assumes "rejected (w (run bs (run as p))) \<le> rejected (w p)"
  shows "run as p = clean_run as p" and "run bs (run as p) = clean_run bs (clean_run as p)"
proof -
  have "rejected (w (run as p)) \<le> rejected (w (run bs (run as p)))"
    by (rule run_rejected_mono)
  with assms have a: "rejected (w (run as p)) \<le> rejected (w p)" by simp
  then show 1: "run as p = clean_run as p" by (rule run_clean)
  have "rejected (w p) \<le> rejected (w (run as p))" by (rule run_rejected_mono)
  with assms have "rejected (w (run bs (run as p))) \<le> rejected (w (run as p))" by simp
  then have "run bs (run as p) = clean_run bs (run as p)" by (rule run_clean)
  with 1 show "run bs (run as p) = clean_run bs (clean_run as p)" by simp
qed

lemma ncalls_obj_head [simp]: "ncalls (obj_head n @ as) \<noteq> 0"
  by (simp add: obj_head_def)

lemma Flush_rejected_mono: "rejected (w p) \<le> rejected (w (snd (Flush p)))"
proof -
  let ?n = "Suc (length (objects p))"
  let ?p5 = "run (pages_tree_actions ?n (pages p)) p"
  have 5: "rejected (w p) \<le> rejected (w ?p5)" by (rule run_rejected_mono)
  show ?thesis
  proof (cases "err ?p5 = None")
    case False
    then show ?thesis using 5 by (simp add: Flush_run Let_def)
  next
    case True
    then show ?thesis
      using 5 le_trans [OF 5 run_rejected_mono] le_trans [OF le_trans [OF 5 run_rejected_mono] run_rejected_mono]
      by (simp add: Flush_run Let_def)
  qed
qed

lemma Flush_clean:
  assumes "rejected (w (snd (Flush p))) \<le> rejected (w p)"
  shows "Flush p = (None, clean_run (flush_actions p) p)"
proof -
  let ?n = "Suc (length (objects p))"
  let ?a = "pages_tree_actions ?n (pages p)"
  let ?b = "catalog_actions (Suc ?n) ?n"
  let ?p5 = "run ?a p"
  let ?p9 = "run ?b ?p5"
  let ?c = "xref_actions (objects ?p9) @
            trailer_actions (length (objects ?p9) + 1) (infoId p) (Suc ?n) (offset ?p9)"
  have na: "ncalls ?a \<noteq> 0" by (simp add: pages_tree_actions_def)
  have nc: "ncalls ?c \<noteq> 0" by (simp add: xref_actions_def)
  have early: "err ?p5 = None"
  proof (rule ccontr)
    assume e: "err ?p5 \<noteq> None"
    then have "snd (Flush p) = ?p5" by (simp add: Flush_run Let_def)
    with assms have "?p5 = clean_run ?a p" by (simp add: run_clean)
    with na e show False by simp
  qed
  then have f: "Flush p = (err (run ?c ?p9), run ?c ?p9)" by (simp add: Flush_run Let_def)
  with assms have h: "rejected (w (run ?c (run (?a @ ?b) p))) \<le> rejected (w p)"
    by (simp add: run_append)
  have ab: "run (?a @ ?b) p = clean_run (?a @ ?b) p"
    and c: "run ?c (run (?a @ ?b) p) = clean_run ?c (clean_run (?a @ ?b) p)"
    using run_run_clean [OF h] by blast+
  have p9: "?p9 = clean_run (?a @ ?b) p" using ab by (simp add: run_append)
  have "run ?c ?p9 = clean_run (?a @ ?b @ ?c) p"
    using c by (simp add: run_append clean_run_append)
  moreover have "?a @ ?b @ ?c = flush_actions p"
    unfolding p9 by (simp add: flush_actions_def Let_def)
  ultimately have "run ?c ?p9 = clean_run (flush_actions p) p" by simp
  moreover have "ncalls (flush_actions p) \<noteq> 0"
    using na by (simp add: flush_actions_def Let_def)
  ultimately show ?thesis using f by simp
qed

lemma writeStream_clean:
  assumes "rejected (w (writeStream data p)) \<le> rejected (w p)"
  shows "writeStream data p = clean_run (stream_part data) p"
  using assms by (simp add: writeStream_run run_clean)

lemma digit_val_digit: "digit_val (digit n) = n mod 10"
proof -
  have "\<forall>k<10. digit_val (''0123456789'' ! k) = k"
    by (simp add: eval_nat_numeral All_less_Suc digit_val_def)
  then show ?thesis by (simp add: digit_def)
qed

lemma undec_append: "undec (s @ [c]) = 10 * undec s + digit_val c"
  by (simp add: undec_def)

lemma undec_dec: "undec (dec n) = n"
proof (induction n rule: dec.induct)
  case (1 n)
  show ?case
  proof (cases "n < 10")
    case True
    then show ?thesis by (simp add: dec.simps [of n] undec_def digit_val_digit)
  next
    case False
    with 1 have "undec (dec (n div 10)) = n div 10" by simp
    with False show ?thesis
      by (simp add: dec.simps [of n] undec_append digit_val_digit)
  qed
qed

lemma accepting_took [simp]: "accepting s \<Longrightarrow> accepting (took k t s)"
  by (auto simp: accepting_def took_def list_all_iff dest: in_set_dropD)

lemma accepting_reliable [simp]: "accepting reliable_sink"
  by (simp add: accepting_def reliable_sink_def new_sink_def)

lemma Write_accepting: "accepting s \<Longrightarrow> Write s d = (length d, None, took 1 d s)"
  by (cases "script s")
     (simp_all add: accepting_def Write_def next_outcome_def took_def Let_def drop_Suc)

lemma print_accepting: "accepting (w p) \<Longrightarrow> print s p = emit 2 (s @ nl) p"
  by (rule print_clean) (simp add: print_def Write_accepting nl_def)

lemma raw_accepting: "accepting (w p) \<Longrightarrow> raw d p = emit 1 d p"
  by (rule raw_clean) (simp add: raw_def Write_accepting)

lemma act_accepting: "accepting (w p) \<Longrightarrow> act a p = clean_run [a] p"
  by (cases a) (simp_all add: print_accepting raw_accepting clean_run_def emit_def)

lemma accepting_clean_run [simp]: "accepting (w p) \<Longrightarrow> accepting (w (clean_run as p))"
  by (simp add: clean_run_def)

lemma run_accepting: "accepting (w p) \<Longrightarrow> run as p = clean_run as p"
proof (induction as arbitrary: p)
  case Nil
  show ?case by (simp add: clean_run_def)
next
  case (Cons a as)
  from Cons.prems have a: "act a p = clean_run [a] p" by (rule act_accepting)
  with Cons.prems have "accepting (w (act a p))" by simp
  then have "run as (act a p) = clean_run as (act a p)" by (rule Cons.IH)
  with a show ?case by (simp add: clean_run_Cons)
qed

lemma reliable_sink_fields [simp]:
  "accepted reliable_sink = []"
  "rejected reliable_sink = 0"
  "calls reliable_sink = 0"
  by (simp_all add: reliable_sink_def new_sink_def)

lemma NewPDFWriter_reliable:
  "fst (NewPDFWriter reliable_sink) =
     clean_run [Line ''%PDF-1.3'']
       \<lparr>w = reliable_sink, offset = 0, objects = [], pages = [], err = None, infoId = 0\<rparr>"
proof -
  have "run [Line ''%PDF-1.3'']
          \<lparr>w = reliable_sink, offset = 0, objects = [], pages = [], err = None, infoId = 0\<rparr> =
        clean_run [Line ''%PDF-1.3'']
          \<lparr>w = reliable_sink, offset = 0, objects = [], pages = [], err = None, infoId = 0\<rparr>"
    by (rule run_accepting) simp
  then show ?thesis by (simp add: NewPDFWriter_def Let_def)
qed

lemma writeStreamObject_clean:
  assumes "rejected (w (snd (writeStreamObject data p))) \<le> rejected (w p)"
  shows "snd (writeStreamObject data p) =
           clean_run (stream_object_actions (Suc (length (objects p))) data) p"
  using assms by (simp add: writeStreamObject_run run_clean)

lemma writeImage_clean:
  assumes "rejected (w (snd (writeImage wd ht data p))) \<le> rejected (w p)"
  shows "snd (writeImage wd ht data p) =
           clean_run (image_actions (Suc (length (objects p))) wd ht data) p"
  using assms by (simp add: writeImage_run run_clean)







lemma nwrites_append [simp]: "nwrites (as @ bs) = nwrites as + nwrites bs"
  by (induction as rule: nwrites.induct) simp_all

lemma nwrites_obj_head [simp]: "nwrites (obj_head n) = 2"
  by (simp add: obj_head_def)

lemma Flush_accepting:
  assumes "accepting (w p)"
  shows "Flush p = (None, clean_run (flush_actions p) p)"
proof (rule Flush_clean)
  show "rejected (w (snd (Flush p))) \<le> rejected (w p)"
    using assms by (simp add: Flush_run Let_def run_accepting pages_tree_actions_def)
qed

lemma nwrites_obj_tail [simp]: "nwrites obj_tail = 2"
  by (simp add: obj_tail_def)

lemma nbegin_page_actions [simp]:
  "nbegin (page_actions n x y data) = 2"
  "nbegin (jpeg_page_actions n img data) = 3"
  by (simp_all add: page_actions_def jpeg_page_actions_def)


lemma nbegin_op_actions [simp]: "nbegin (op_actions n a) = objects_of a"
  by (cases a) simp_all

lemma perform_run:
  "perform a p =
     Return ((run (op_actions (length (objects p)) a) p)
       \<lparr>pages := pages p @ page_ids (length (objects p)) [a],
        infoId := info_ident (length (objects p)) (infoId p) [a]\<rparr>)"
  by (cases a) (simp_all add: WriteInfo_run WritePage_run WriteJPEGPage_run Let_def)

lemma page_ids_Cons: "page_ids n (a # as) = page_ids n [a] @ page_ids (n + objects_of a) as"
  by (cases a) simp_all

lemma info_ident_Cons:
  "info_ident n cur (a # as) = info_ident (n + objects_of a) (info_ident n cur [a]) as"
  by (cases a) simp_all

lemma session_run:
  "length (objects p) = n \<Longrightarrow>
   session ops p =
     Return ((run (session_actions n ops) p)
       \<lparr>pages := pages p @ page_ids n ops, infoId := info_ident n (infoId p) ops\<rparr>)"
proof (induction ops arbitrary: p n)
  case Nil
  then show ?case by simp
next
  case (Cons a as)
  let ?q = "(run (op_actions n a) p)
       \<lparr>pages := pages p @ page_ids n [a], infoId := info_ident n (infoId p) [a]\<rparr>"
  have q: "perform a p = Return ?q" using Cons.prems by (simp add: perform_run)
  have l: "length (objects ?q) = n + objects_of a" using Cons.prems by simp
  show ?case
    using Cons.IH [OF l]
    by (simp add: q run_append run_upd_pages run_upd_infoId
        page_ids_Cons [of n a as] info_ident_Cons [of n _ a as])
qed

lemma document_run:
  "document s ops =
     Return (Flush ((run (Line ''%PDF-1.3'' # session_actions 0 ops) (blank s))
       \<lparr>pages := page_ids 0 ops, infoId := info_ident 0 0 ops\<rparr>))"
proof -
  have "length (objects (fst (NewPDFWriter s))) = 0"
    by (simp add: NewPDFWriter_def Let_def)
  from session_run [OF this, of ops] show ?thesis
    by (simp add: document_def NewPDFWriter_def Let_def blank_def)
qed

lemma blank_fields [simp]:
  "w (blank s) = s" "offset (blank s) = 0" "objects (blank s) = []" "pages (blank s) = []"
  "err (blank s) = None" "infoId (blank s) = 0"
  by (simp_all add: blank_def)

lemma document_clean:
  assumes "document s ops = Return (e, p)" and "rejected (w p) \<le> rejected s"
  shows "e = None" and "p = clean_run (flush_actions (before_flush s ops)) (before_flush s ops)"
proof -
  let ?A = "Line ''%PDF-1.3'' # session_actions 0 ops"
  let ?q = "(run ?A (blank s))\<lparr>pages := page_ids 0 ops, infoId := info_ident 0 0 ops\<rparr>"
  from assms(1) have f: "Flush ?q = (e, p)" by (simp add: document_run)
  have m1: "rejected s \<le> rejected (w (run ?A (blank s)))"
    using run_rejected_mono [of "blank s" ?A] by simp
  have m2: "rejected (w ?q) \<le> rejected (w (snd (Flush ?q)))" by (rule Flush_rejected_mono)
  from f assms(2) m2 have "rejected (w (run ?A (blank s))) \<le> rejected (w (blank s))" by simp
  then have r: "run ?A (blank s) = clean_run ?A (blank s)" by (rule run_clean)
  then have q: "?q = before_flush s ops" by (simp add: before_flush_def)
  from f assms(2) m1 have "rejected (w (snd (Flush ?q))) \<le> rejected (w ?q)" by simp
  then have "Flush ?q = (None, clean_run (flush_actions ?q) ?q)" by (rule Flush_clean)
  with f q show "e = None"
    and "p = clean_run (flush_actions (before_flush s ops)) (before_flush s ops)"
    by simp_all
qed

lemma line_at_append: "line_at out pos l \<Longrightarrow> line_at (out @ t) pos l"
proof -
  assume a: "line_at out pos l"
  then have t: "take (length l + 1) (drop pos out) = l @ nl" by (simp add: line_at_def)
  then have "length (take (length l + 1) (drop pos out)) = length l + 1" by (simp add: nl_def)
  then have len: "pos + length l + 1 \<le> length out" by simp
  then have "take (length l + 1) (drop pos (out @ t)) = take (length l + 1) (drop pos out)"
    by simp
  moreover have "pos = 0 \<or> (out @ t) ! (pos - 1) = CHR 0x0A"
    using a len by (auto simp: line_at_def nth_append)
  ultimately show ?thesis using t by (simp add: line_at_def)
qed

lemma marks_no_begin: "nbegin as = 0 \<Longrightarrow> marks off as = []"
proof -
  assume "nbegin as = 0"
  then have "length (marks off as) = 0" by simp
  then show ?thesis by (simp del: length_marks)
qed

lemma ends_nl_text: "ends_nl as \<Longrightarrow> text_of as \<noteq> [] \<and> last (text_of as) = CHR 0x0A"
proof -
  assume "ends_nl as"
  then obtain s bs where "rev as = Line s # bs"
    by (auto simp: ends_nl_def split: list.splits action.splits)
  then have "as = rev bs @ [Line s]" by (simp add: rev_eq_Cons_iff)
  then show ?thesis by (simp add: nl_def)
qed

lemma well_placed_plain:
  assumes "well_placed p" and "nbegin as = 0" and "ends_nl as"
  shows "well_placed (clean_run as p)"
  using assms ends_nl_text [OF assms(3)]
  by (auto simp: well_placed_def marks_no_begin line_at_append)

lemma well_placed_object:
  assumes "well_placed p" and "nbegin as = 0" and "ends_nl as"
    and "n = Suc (length (objects p))"
  shows "well_placed (clean_run (obj_head n @ as) p)"
proof -
  let ?out = "accepted (w p)"
  let ?h = "dec n @ '' 0 obj''"
  let ?t = "text_of (obj_head n @ as)"
  have t: "?t = ?h @ nl @ ''<<'' @ nl @ text_of as" by (simp add: obj_head_def)
  have o: "offset p = length ?out" using assms(1) by (simp add: well_placed_def)
  have m: "marks (offset p) (obj_head n @ as) = [offset p]"
    using assms(2) by (simp add: obj_head_def marks_no_begin)
  have new: "line_at (?out @ ?t) (offset p) ?h"
  proof -
    have "take (length ?h + 1) (drop (offset p) (?out @ ?t)) = ?h @ nl"
      unfolding t o by (simp add: nl_def)
    moreover have "offset p = 0 \<or> (?out @ ?t) ! (offset p - 1) = CHR 0x0A"
    proof (cases "?out = []")
      case True
      then show ?thesis by (simp add: o)
    next
      case False
      with assms(1) have "last ?out = CHR 0x0A" by (simp add: well_placed_def)
      with False show ?thesis by (simp add: o nth_append last_conv_nth)
    qed
    ultimately show ?thesis by (simp add: line_at_def)
  qed
  have old: "\<forall>k < length (objects p). line_at (?out @ ?t) (objects p ! k) (dec (Suc k) @ '' 0 obj'')"
    using assms(1) by (simp add: well_placed_def line_at_append)
  have "\<forall>k < length (objects p @ [offset p]).
          line_at (?out @ ?t) ((objects p @ [offset p]) ! k) (dec (Suc k) @ '' 0 obj'')"
    using old new assms(4) by (auto simp: nth_append less_Suc_eq)
  moreover have "?t \<noteq> [] \<and> last ?t = CHR 0x0A"
    using ends_nl_text [OF assms(3)] by (simp add: t)
  ultimately show ?thesis
    using o m by (simp add: well_placed_def)
qed

lemma text_of_map_Line: "text_of (map (\<lambda>x. Line (f x)) xs) = concat (map (\<lambda>x. f x @ nl) xs)"
  by (induction xs) simp_all

lemma text_of_xref_actions: "text_of (xref_actions offs) = xref_section offs"
  by (simp add: xref_actions_def xref_section_def xref_entry_def [abs_def] text_of_map_Line)

lemma text_of_trailer_actions:
  "text_of (trailer_actions sz info rootId xrefOff) = trailer_section sz info rootId xrefOff"
  by (simp add: trailer_actions_def trailer_section_def)

lemma text_of_pages_tree_actions:
  "text_of (pages_tree_actions n ps) = pages_tree_object n ps"
  by (simp add: pages_tree_actions_def pages_tree_object_def obj_head_def obj_tail_def)

lemma text_of_catalog_actions:
  "text_of (catalog_actions n pagesId) = catalog_object n pagesId"
  by (simp add: catalog_actions_def catalog_object_def obj_head_def obj_tail_def)

lemma marks_object [simp]:
  "marks off (pages_tree_actions n ps) = [off]"
  "marks off (catalog_actions n pagesId) = [off]"
  by (simp_all add: pages_tree_actions_def catalog_actions_def obj_head_def obj_tail_def)

lemma nbegin_tail [simp]:
  "nbegin (xref_actions offs) = 0"
  "nbegin (trailer_actions sz info rootId xrefOff) = 0"
  by (simp_all add: xref_actions_def trailer_actions_def) (induction offs; simp)

lemma nbegin_flush_objects [simp]:
  "nbegin (pages_tree_actions n ps) = 1"
  "nbegin (catalog_actions n pagesId) = 1"
  by (simp_all add: pages_tree_actions_def catalog_actions_def)

lemma flush_actions_eq:
  "flush_actions p =
     pages_tree_actions (length (objects p) + 1) (pages p) @
     catalog_actions (length (objects p) + 2) (length (objects p) + 1) @
     xref_actions
       (objects p @ [offset p, offset p + length (pages_tree_object (length (objects p) + 1) (pages p))]) @
     trailer_actions (length (objects p) + 3) (infoId p) (length (objects p) + 2)
       (offset p + length (pages_tree_object (length (objects p) + 1) (pages p)) +
        length (catalog_object (length (objects p) + 2) (length (objects p) + 1)))"
  by (simp add: flush_actions_def Let_def text_of_pages_tree_actions text_of_catalog_actions
      add.assoc numeral_3_eq_3)

lemma well_placed_upd [simp]:
  "well_placed (p\<lparr>pages := ps\<rparr>) = well_placed p"
  "well_placed (p\<lparr>infoId := i\<rparr>) = well_placed p"
  by (simp_all add: well_placed_def)

lemma ends_nl_obj_tail [simp]: "ends_nl (as @ obj_tail)"
  by (simp add: ends_nl_def obj_tail_def)

lemma ends_nl_Cons [simp]: "as \<noteq> [] \<Longrightarrow> ends_nl (a # as) = ends_nl as"
proof -
  assume "as \<noteq> []"
  then obtain b bs where "rev as = b # bs" by (cases "rev as") simp_all
  then show ?thesis by (simp add: ends_nl_def)
qed

lemma obj_tail_not_Nil [simp]: "obj_tail \<noteq> []"
  by (simp add: obj_tail_def)

lemma ends_nl_obj_tail' [simp]: "ends_nl obj_tail"
  by (simp add: ends_nl_def obj_tail_def)

lemma well_placed_info:
  "well_placed p \<Longrightarrow> n = Suc (length (objects p)) \<Longrightarrow>
   well_placed (clean_run (info_actions n title stamp) p)"
  unfolding info_actions_def by (rule well_placed_object) simp_all

lemma well_placed_stream_object:
  "well_placed p \<Longrightarrow> n = Suc (length (objects p)) \<Longrightarrow>
   well_placed (clean_run (stream_object_actions n data) p)"
  unfolding stream_object_actions_def
  by (rule well_placed_object) (simp_all flip: append_assoc)

lemma well_placed_image:
  "well_placed p \<Longrightarrow> n = Suc (length (objects p)) \<Longrightarrow>
   well_placed (clean_run (image_actions n wd ht data) p)"
  unfolding image_actions_def
  by (rule well_placed_object) (simp_all flip: append_assoc)

lemma well_placed_page_object:
  "well_placed p \<Longrightarrow> n = Suc (length (objects p)) \<Longrightarrow>
   well_placed (clean_run (page_object_actions n x y) p)"
  unfolding page_object_actions_def by (rule well_placed_object) simp_all

lemma well_placed_jpeg_page_object:
  "well_placed p \<Longrightarrow> n = Suc (length (objects p)) \<Longrightarrow>
   well_placed (clean_run (jpeg_page_object_actions n x y) p)"
  unfolding jpeg_page_object_actions_def by (rule well_placed_object) simp_all

lemma well_placed_pages_tree:
  "well_placed p \<Longrightarrow> n = Suc (length (objects p)) \<Longrightarrow>
   well_placed (clean_run (pages_tree_actions n ps) p)"
  unfolding pages_tree_actions_def by (rule well_placed_object) simp_all

lemma well_placed_catalog:
  "well_placed p \<Longrightarrow> n = Suc (length (objects p)) \<Longrightarrow>
   well_placed (clean_run (catalog_actions n pagesId) p)"
  unfolding catalog_actions_def by (rule well_placed_object) simp_all

lemma well_placed_op:
  assumes "well_placed p" and "length (objects p) = n"
  shows "well_placed (clean_run (op_actions n a) p)"
proof (cases a)
  case (Info title stamp)
  with assms show ?thesis by (simp add: well_placed_info)
next
  case (Page x y data)
  from assms have 1: "well_placed (clean_run (page_object_actions (Suc n) x y) p)"
    by (simp add: well_placed_page_object)
  then have "well_placed (clean_run (stream_object_actions (Suc (Suc n)) data)
               (clean_run (page_object_actions (Suc n) x y) p))"
    using assms(2) by (simp add: well_placed_stream_object)
  with Page show ?thesis by (simp add: page_actions_def clean_run_append)
next
  case (JPEGPage img data)
  let ?x = "points (Dx img)" and ?y = "points (Dy img)"
  let ?p1 = "clean_run (jpeg_page_object_actions (Suc n) ?x ?y) p"
  let ?p2 = "clean_run (stream_object_actions (Suc (Suc n)) (WriteJPEGPage_content ?x ?y)) ?p1"
  from assms have 1: "well_placed ?p1" by (simp add: well_placed_jpeg_page_object)
  then have 2: "well_placed ?p2" using assms(2) by (simp add: well_placed_stream_object)
  then have "well_placed (clean_run (image_actions (Suc (Suc (Suc n))) (Dx img) (Dy img) data) ?p2)"
    using assms(2) by (simp add: well_placed_image)
  with JPEGPage show ?thesis by (simp add: jpeg_page_actions_def clean_run_append)
qed

lemma well_placed_session:
  "well_placed p \<Longrightarrow> length (objects p) = n \<Longrightarrow>
   well_placed (clean_run (session_actions n ops) p)"
proof (induction ops arbitrary: p n)
  case Nil
  then show ?case by (simp add: clean_run_def)
next
  case (Cons a as)
  let ?q = "clean_run (op_actions n a) p"
  from Cons.prems have 1: "well_placed ?q" by (rule well_placed_op)
  have 2: "length (objects ?q) = n + objects_of a" using Cons.prems(2) by simp
  from Cons.IH [OF 1 2] show ?case by (simp add: clean_run_append)
qed

lemma well_placed_blank: "accepted s = [] \<Longrightarrow> well_placed (blank s)"
  by (simp add: well_placed_def)

lemma well_placed_before_flush:
  assumes "accepted s = []"
  shows "well_placed (before_flush s ops)"
proof -
  have "well_placed (clean_run [Line ''%PDF-1.3''] (blank s))"
    using assms by (intro well_placed_plain well_placed_blank) (simp_all add: ends_nl_def)
  then have "well_placed (clean_run (session_actions 0 ops) (clean_run [Line ''%PDF-1.3''] (blank s)))"
    by (rule well_placed_session) simp
  then show ?thesis by (simp add: before_flush_def clean_run_Cons)
qed

lemma ends_nl_trailer [simp]: "ends_nl (as @ trailer_actions sz info rootId xrefOff)"
  by (simp add: ends_nl_def trailer_actions_def)

lemma well_placed_flush:
  assumes "well_placed q"
  shows "well_placed (clean_run (flush_actions q) q)"
proof -
  let ?n = "length (objects q)"
  let ?p1 = "clean_run (pages_tree_actions (?n + 1) (pages q)) q"
  let ?p2 = "clean_run (catalog_actions (?n + 2) (?n + 1)) ?p1"
  from assms have 1: "well_placed ?p1" by (simp add: well_placed_pages_tree)
  then have 2: "well_placed ?p2" by (simp add: well_placed_catalog)
  have "well_placed (clean_run (xref_actions offs @ trailer_actions sz info rootId xrefOff) ?p2)"
    for offs sz info rootId xrefOff
    using 2 by (rule well_placed_plain) simp_all
  then show ?thesis by (simp add: flush_actions_eq flip: clean_run_append)
qed

lemma flush_output:
  assumes "offset q = length (accepted (w q))" and "p = clean_run (flush_actions q) q"
  shows "objects p =
           objects q @ [offset q,
             offset q + length (pages_tree_object (length (objects q) + 1) (pages q))]"
    and "accepted (w p) =
           accepted (w q) @
           pages_tree_object (length (objects q) + 1) (pages q) @
           catalog_object (length (objects q) + 2) (length (objects q) + 1) @
           xref_section (objects p) @
           trailer_section (length (objects p) + 1) (infoId q) (length (objects p))
             (length (accepted (w q) @
                pages_tree_object (length (objects q) + 1) (pages q) @
                catalog_object (length (objects q) + 2) (length (objects q) + 1)))"
    and "pages p = pages q" and "infoId p = infoId q"
  using assms
  by (simp_all add: flush_actions_eq marks_no_begin text_of_pages_tree_actions
      text_of_catalog_actions text_of_xref_actions text_of_trailer_actions numeral_3_eq_3
      add.assoc)

lemma digit_in_digits: "digit n \<in> set ''0123456789''"
  unfolding digit_def by (rule nth_mem) simp

lemma dec_digits: "set (dec n) \<subseteq> set ''0123456789''"
proof (induction n rule: dec.induct)
  case (1 n)
  show ?case
  proof (cases "n < 10")
    case True
    then show ?thesis using digit_in_digits [of n] by (simp add: dec.simps [of n])
  next
    case False
    with 1 have "set (dec (n div 10)) \<subseteq> set ''0123456789''" by simp
    with False show ?thesis using digit_in_digits [of n] by (simp add: dec.simps [of n])
  qed
qed

lemma pad10_digits: "set (pad10 n) \<subseteq> set ''0123456789''"
  using dec_digits [of n] by (auto simp: pad10_def)

lemma undec_zeros: "undec (replicate k CHR ''0'' @ s) = undec s"
  by (induction k) (simp_all add: undec_def digit_val_def)

lemma undec_pad10: "undec (pad10 n) = n"
  by (simp add: pad10_def undec_zeros undec_dec)

lemma xref_entry_offset_entry: "xref_entry_offset (xref_entry off) = off"
proof -
  have "takeWhile (\<lambda>c. c \<noteq> CHR '' '') (pad10 off @ '' 00000 n'' @ nl) = pad10 off"
    using pad10_digits [of off] by (subst takeWhile_append2) auto
  then show ?thesis by (simp add: xref_entry_offset_def xref_entry_def undec_pad10)
qed

lemma accepting_new_sink [simp]: "accepting (new_sink [] Accept)"
  by (simp add: accepting_def new_sink_def)

lemma new_sink_fields [simp]:
  "accepted (new_sink sc fb) = []" "rejected (new_sink sc fb) = 0" "calls (new_sink sc fb) = 0"
  by (simp_all add: new_sink_def)

lemma document_accepting:
  assumes "accepting s"
  shows "document s ops =
           Return (None, clean_run (flush_actions (before_flush s ops)) (before_flush s ops))"
proof -
  let ?A = "Line ''%PDF-1.3'' # session_actions 0 ops"
  have r: "run ?A (blank s) = clean_run ?A (blank s)"
    by (rule run_accepting) (simp add: assms)
  have "accepting (w (before_flush s ops))" using assms by (simp add: before_flush_def)
  then have "Flush (before_flush s ops) =
      (None, clean_run (flush_actions (before_flush s ops)) (before_flush s ops))"
    by (rule Flush_accepting)
  then show ?thesis using r by (simp add: document_run before_flush_def)
qed


lemma info_ident_0: "info_ident n cur ops = 0 \<longleftrightarrow> cur = 0 \<and> \<not> list_ex is_info ops"
  by (induction n cur ops rule: info_ident.induct) simp_all

lemma session_fields:
  assumes "session ops (fst (NewPDFWriter s)) = Return q"
  shows "pages q = page_ids 0 ops" and "infoId q = info_ident 0 0 ops"
proof -
  have "length (objects (fst (NewPDFWriter s))) = 0"
    by (simp add: NewPDFWriter_def Let_def)
  from session_run [OF this, of ops] assms
  show "pages q = page_ids 0 ops" and "infoId q = info_ident 0 0 ops"
    by (auto simp: NewPDFWriter_def Let_def)
qed


lemma Flush_clean_text:
  assumes "Flush q = (e, p)" and "rejected (w p) = rejected (w q)"
  shows "accepted (w p) =
           accepted (w q) @
           pages_tree_object (length (objects q) + 1) (pages q) @
           catalog_object (length (objects q) + 2) (length (objects q) + 1) @
           xref_section (objects p) @
           trailer_section (length (objects p) + 1) (infoId q) (length (objects p))
             (offset q + length (pages_tree_object (length (objects q) + 1) (pages q)) +
              length (catalog_object (length (objects q) + 2) (length (objects q) + 1)))"
proof -
  from assms have "Flush q = (None, clean_run (flush_actions q) q)"
    by (intro Flush_clean) simp
  with assms(1) have "p = clean_run (flush_actions q) q" by simp
  then show ?thesis
    by (simp add: flush_actions_eq marks_no_begin text_of_pages_tree_actions
        text_of_catalog_actions text_of_xref_actions text_of_trailer_actions numeral_3_eq_3
        add.assoc)
qed

lemma empty_document_flush_text:
  "text_of (flush_actions (fst (NewPDFWriter reliable_sink))) =
     ''1 0 obj\<newline><<\<newline>/Type /Pages\<newline>/Kids [ ]\<newline>/Count 0\<newline>>>\<newline>endobj\<newline>'' @
     ''2 0 obj\<newline><<\<newline>/Type /Catalog\<newline>/Pages 1 0 R\<newline>>>\<newline>endobj\<newline>'' @
     ''xref\<newline>0 3\<newline>0000000000 65535 f\<newline>0000000009 00000 n\<newline>0000000062 00000 n\<newline>'' @
     ''trailer\<newline><<\<newline>/Size 3\<newline>/Info 0 0 R\<newline>/Root 2 0 R\<newline>/ID [<deadbeef> <deadbeef>]\<newline>>>\<newline>startxref\<newline>111\<newline>%%EOF\<newline>''"
  by code_simp

lemma empty_document_output:
  "accepted (w (snd (Flush (fst (NewPDFWriter reliable_sink))))) =
     ''%PDF-1.3\<newline>'' @ text_of (flush_actions (fst (NewPDFWriter reliable_sink)))"
proof -
  let ?q = "fst (NewPDFWriter reliable_sink)"
  have acc: "accepting (w ?q)" by (simp add: NewPDFWriter_reliable)
  have a: "accepted (w ?q) = ''%PDF-1.3\<newline>''"
    by (simp add: NewPDFWriter_reliable nl_def)
  from Flush_accepting [OF acc] a show ?thesis by simp
qed

lemma info_ident_le:
  "cur \<le> n \<Longrightarrow> info_ident n cur ops \<le> n + nbegin (session_actions n ops)"
proof (induction n cur ops rule: info_ident.induct)
  case (1 n cur)
  then show ?case by simp
next
  case (2 n cur title stamp as)
  then show ?case by (simp add: add.assoc)
next
  case (3 n cur x y data as)
  then show ?case by (simp add: add.assoc)
next
  case (4 n cur img data as)
  then show ?case by (simp add: add.assoc)
qed

lemma session_objects:
  assumes "session ops (fst (NewPDFWriter s)) = Return q"
  shows "length (objects q) = nbegin (session_actions 0 ops)"
proof -
  have "length (objects (fst (NewPDFWriter s))) = 0"
    by (simp add: NewPDFWriter_def Let_def)
  from session_run [OF this, of ops] assms show ?thesis
    by (auto simp: NewPDFWriter_def Let_def)
qed

lemma session_accepting:
  assumes "accepting s"
  shows "session ops (fst (NewPDFWriter s)) = Return (before_flush s ops)"
proof -
  let ?A = "Line ''%PDF-1.3'' # session_actions 0 ops"
  have r: "run ?A (blank s) = clean_run ?A (blank s)"
    by (rule run_accepting) (simp add: assms)
  have "length (objects (fst (NewPDFWriter s))) = 0"
    by (simp add: NewPDFWriter_def Let_def)
  from session_run [OF this, of ops] r show ?thesis
    by (simp add: NewPDFWriter_def Let_def blank_def before_flush_def)
qed

lemma points_1500_value: "points 1500 = Finite 720"
  by code_simp

lemma points_1050_value: "points 1050 = Finite 504"
  by code_simp

lemma points_1500: "fmt_f2 (points 1500) = ''720.00''"
  unfolding points_1500_value
  by (simp add: fmt_f2_def round_half_even_def fixed2_def dec.simps digit_def Let_def)

lemma points_1050: "fmt_f2 (points 1050) = ''504.00''"
  unfolding points_1050_value
  by (simp add: fmt_f2_def round_half_even_def fixed2_def dec.simps digit_def Let_def)

lemma WriteJPEGPage_clean:
  assumes "WriteJPEGPage img data p = Return (i, e, q)" and "rejected (w q) = rejected (w p)"
  shows "i = Suc (length (objects p))"
    and "q = (clean_run (jpeg_page_actions (Suc (length (objects p))) img data) p)
               \<lparr>pages := pages p @ [Suc (length (objects p))]\<rparr>"
proof -
  let ?n = "Suc (length (objects p))"
  from assms(1) have i: "i = ?n"
    and q: "q = (run (jpeg_page_actions ?n img data) p)\<lparr>pages := pages p @ [?n]\<rparr>"
    by (auto simp: WriteJPEGPage_run Let_def)
  from q assms(2) have "rejected (w (run (jpeg_page_actions ?n img data) p)) \<le> rejected (w p)"
    by simp
  then have "run (jpeg_page_actions ?n img data) p = clean_run (jpeg_page_actions ?n img data) p"
    by (rule run_clean)
  with i q show "i = ?n"
    and "q = (clean_run (jpeg_page_actions ?n img data) p)\<lparr>pages := pages p @ [?n]\<rparr>"
    by simp_all
qed

lemma Dx_Dy_example:
  "Dx \<lparr>MinX = 0, MinY = 0, MaxX = 1500, MaxY = 1050\<rparr> = 1500"
  "Dy \<lparr>MinX = 0, MinY = 0, MaxX = 1500, MaxY = 1050\<rparr> = 1050"
  by (simp_all add: Dx_def Dy_def wrap64_def)

lemma flush_at_9:
  assumes "offset p = 9" and "objects p = []" and "pages p = []" and "infoId p = 0"
  shows "text_of (flush_actions p) =
     ''1 0 obj\<newline><<\<newline>/Type /Pages\<newline>/Kids [ ]\<newline>/Count 0\<newline>>>\<newline>endobj\<newline>'' @
     ''2 0 obj\<newline><<\<newline>/Type /Catalog\<newline>/Pages 1 0 R\<newline>>>\<newline>endobj\<newline>'' @
     ''xref\<newline>0 3\<newline>0000000000 65535 f\<newline>0000000009 00000 n\<newline>0000000062 00000 n\<newline>'' @
     ''trailer\<newline><<\<newline>/Size 3\<newline>/Info 0 0 R\<newline>/Root 2 0 R\<newline>/ID [<deadbeef> <deadbeef>]\<newline>>>\<newline>startxref\<newline>111\<newline>%%EOF\<newline>''"
    and "marks 9 (flush_actions p) = [9, 62]"
proof -
  let ?A = "pages_tree_actions 1 [] @ catalog_actions 2 1 @
            xref_actions [9, 9 + length (pages_tree_object 1 [])] @
            trailer_actions 3 0 2
              (9 + length (pages_tree_object 1 []) + length (catalog_object 2 1))"
  have a: "flush_actions p = ?A" by (simp add: flush_actions_eq assms numeral_2_eq_2)
  have t: "text_of ?A =
     ''1 0 obj\<newline><<\<newline>/Type /Pages\<newline>/Kids [ ]\<newline>/Count 0\<newline>>>\<newline>endobj\<newline>'' @
     ''2 0 obj\<newline><<\<newline>/Type /Catalog\<newline>/Pages 1 0 R\<newline>>>\<newline>endobj\<newline>'' @
     ''xref\<newline>0 3\<newline>0000000000 65535 f\<newline>0000000009 00000 n\<newline>0000000062 00000 n\<newline>'' @
     ''trailer\<newline><<\<newline>/Size 3\<newline>/Info 0 0 R\<newline>/Root 2 0 R\<newline>/ID [<deadbeef> <deadbeef>]\<newline>>>\<newline>startxref\<newline>111\<newline>%%EOF\<newline>''"
    by code_simp
  have m: "marks 9 ?A = [9, 62]" by code_simp
  from a t show "text_of (flush_actions p) =
     ''1 0 obj\<newline><<\<newline>/Type /Pages\<newline>/Kids [ ]\<newline>/Count 0\<newline>>>\<newline>endobj\<newline>'' @
     ''2 0 obj\<newline><<\<newline>/Type /Catalog\<newline>/Pages 1 0 R\<newline>>>\<newline>endobj\<newline>'' @
     ''xref\<newline>0 3\<newline>0000000000 65535 f\<newline>0000000009 00000 n\<newline>0000000062 00000 n\<newline>'' @
     ''trailer\<newline><<\<newline>/Size 3\<newline>/Info 0 0 R\<newline>/Root 2 0 R\<newline>/ID [<deadbeef> <deadbeef>]\<newline>>>\<newline>startxref\<newline>111\<newline>%%EOF\<newline>''"
    by (simp only:)
  from a m show "marks 9 (flush_actions p) = [9, 62]" by (simp only:)
qed


section \<open>The claims\<close>

text \<open>
  Claim C10. When the sink rejects none of the writes of \<^verbatim>\<open>writeStream\<close>, the bytes it
  adds to the output are exactly the keyword \<^verbatim>\<open>stream\<close> and a newline, the payload as
  it was handed in, and then immediately the keyword \<^verbatim>\<open>endstream\<close> and a newline:
  nothing stands between the last byte of the payload and \<^verbatim>\<open>endstream\<close>.
\<close>

theorem writeStream_framing:
  assumes "rejected (w (writeStream data p)) = rejected (w p)"
  shows "accepted (w (writeStream data p)) =
           accepted (w p) @ ''stream'' @ ''\<newline>'' @ data @ ''endstream'' @ ''\<newline>''"
proof -
  from assms have "writeStream data p = clean_run (stream_part data) p"
    by (simp add: writeStream_clean)
  then show ?thesis by (simp add: stream_part_def nl_def)
qed

theorem writeStream_framing_witness:
  "rejected (w (writeStream ''ABC'' (fst (NewPDFWriter reliable_sink)))) =
     rejected (w (fst (NewPDFWriter reliable_sink))) \<and>
   accepted (w (writeStream ''ABC'' (fst (NewPDFWriter reliable_sink)))) =
     ''%PDF-1.3\<newline>stream\<newline>ABCendstream\<newline>''"
proof -
  have h: "rejected (w (writeStream ''ABC'' (fst (NewPDFWriter reliable_sink)))) =
     rejected (w (fst (NewPDFWriter reliable_sink)))"
    by code_simp
  have a: "accepted (w (fst (NewPDFWriter reliable_sink))) = ''%PDF-1.3\<newline>''"
    by code_simp
  from writeStream_framing [OF h] a h show ?thesis by simp
qed

text \<open>
  Claim C5. When the sink rejects none of its writes, a stream object written by
  \<^verbatim>\<open>writeStreamObject\<close> and an image object written by \<^verbatim>\<open>writeImage\<close> declare as
  \<^verbatim>\<open>/Length\<close> the number of bytes of the payload, and the bytes between the line
  \<^verbatim>\<open>stream\<close> and the keyword \<^verbatim>\<open>endstream\<close> are that payload and nothing else. The
  decimal text of the declaration reads back as the length.
\<close>

theorem stream_length_exact:
  "(rejected (w (snd (writeStreamObject data p))) = rejected (w p) \<longrightarrow>
      accepted (w (snd (writeStreamObject data p))) =
        accepted (w p) @ dec (Suc (length (objects p))) @ '' 0 obj\<newline><<\<newline>'' @
        ''/Length '' @ dec (length data) @ ''\<newline>>>\<newline>stream\<newline>'' @ data @
        ''endstream\<newline>>>\<newline>endobj\<newline>'') \<and>
   (rejected (w (snd (writeImage wd ht data p))) = rejected (w p) \<longrightarrow>
      (\<exists>dict. accepted (w (snd (writeImage wd ht data p))) =
        accepted (w p) @ dict @
        ''/Length '' @ dec (length data) @ ''\<newline>>>\<newline>stream\<newline>'' @ data @
        ''endstream\<newline>>>\<newline>endobj\<newline>'')) \<and>
   undec (dec (length data)) = length data"
proof (intro conjI impI)
  assume "rejected (w (snd (writeStreamObject data p))) = rejected (w p)"
  then have "snd (writeStreamObject data p) =
      clean_run (stream_object_actions (Suc (length (objects p))) data) p"
    by (simp add: writeStreamObject_clean)
  then show "accepted (w (snd (writeStreamObject data p))) =
        accepted (w p) @ dec (Suc (length (objects p))) @ '' 0 obj\<newline><<\<newline>'' @
        ''/Length '' @ dec (length data) @ ''\<newline>>>\<newline>stream\<newline>'' @ data @
        ''endstream\<newline>>>\<newline>endobj\<newline>''"
    by (simp add: stream_object_actions_def obj_head_def obj_tail_def stream_part_def nl_def)
next
  assume "rejected (w (snd (writeImage wd ht data p))) = rejected (w p)"
  then have "snd (writeImage wd ht data p) =
      clean_run (image_actions (Suc (length (objects p))) wd ht data) p"
    by (simp add: writeImage_clean)
  then have "accepted (w (snd (writeImage wd ht data p))) =
        accepted (w p) @
        text_of (obj_head (Suc (length (objects p))) @
          [Line ''/Type /XObject'', Line ''/Subtype /Image'', Line ''/Name /I'',
           Line ''/Filter [ /DCTDecode ]'', Line (''/Width '' @ fmt_d wd),
           Line (''/Height '' @ fmt_d ht), Line ''/ColorSpace /DeviceRGB'',
           Line ''/BitsPerComponent 8'']) @
        ''/Length '' @ dec (length data) @ ''\<newline>>>\<newline>stream\<newline>'' @ data @
        ''endstream\<newline>>>\<newline>endobj\<newline>''"
    by (simp add: image_actions_def obj_tail_def stream_part_def nl_def)
  then show "\<exists>dict. accepted (w (snd (writeImage wd ht data p))) =
        accepted (w p) @ dict @
        ''/Length '' @ dec (length data) @ ''\<newline>>>\<newline>stream\<newline>'' @ data @
        ''endstream\<newline>>>\<newline>endobj\<newline>''"
    by blast
next
  show "undec (dec (length data)) = length data" by (rule undec_dec)
qed

theorem stream_length_exact_witness:
  "rejected (w (snd (writeStreamObject ''ABC'' (fst (NewPDFWriter reliable_sink))))) =
     rejected (w (fst (NewPDFWriter reliable_sink))) \<and>
   rejected (w (snd (writeImage 2 1 ''ABC'' (fst (NewPDFWriter reliable_sink))))) =
     rejected (w (fst (NewPDFWriter reliable_sink))) \<and>
   accepted (w (snd (writeStreamObject ''ABC'' (fst (NewPDFWriter reliable_sink))))) =
     ''%PDF-1.3\<newline>1 0 obj\<newline><<\<newline>/Length 3\<newline>>>\<newline>stream\<newline>ABCendstream\<newline>>>\<newline>endobj\<newline>'' \<and>
   (\<exists>dict. accepted (w (snd (writeImage 2 1 ''ABC'' (fst (NewPDFWriter reliable_sink))))) =
     ''%PDF-1.3\<newline>'' @ dict @ ''/Length 3\<newline>>>\<newline>stream\<newline>ABCendstream\<newline>>>\<newline>endobj\<newline>'')"
proof -
  let ?p = "fst (NewPDFWriter reliable_sink)"
  have acc: "accepting (w ?p)" by (simp add: NewPDFWriter_reliable)
  have h1: "rejected (w (snd (writeStreamObject ''ABC'' ?p))) = rejected (w ?p)"
    using acc by (simp add: writeStreamObject_run run_accepting)
  have h2: "rejected (w (snd (writeImage 2 1 ''ABC'' ?p))) = rejected (w ?p)"
    using acc by (simp add: writeImage_run run_accepting)
  have a: "accepted (w ?p) = ''%PDF-1.3\<newline>''"
    by (simp add: NewPDFWriter_reliable nl_def)
  have o: "objects ?p = []"
    by (simp add: NewPDFWriter_reliable)
  have d1: "dec (Suc 0) = ''1''" by code_simp
  have d3: "dec (Suc (Suc (Suc 0))) = ''3''" by code_simp
  from stream_length_exact [of "''ABC''" ?p 2 1] h1 h2 a o d1 d3
  show ?thesis by simp
qed

text \<open>
  Claim C8. In every execution of \<^verbatim>\<open>WritePage\<close>, with or without sink failures, the
  identifier that \<^verbatim>\<open>writeStreamObject\<close> returns for the content stream is the page's
  identifier plus one, so the call returns and never panics. In every execution of
  \<^verbatim>\<open>WriteJPEGPage\<close> the content stream gets the page's identifier plus one and the
  image the page's identifier plus two, and the call returns.
\<close>

theorem page_objects_adjacent:
  "fst (writeStreamObject data (snd (WritePage_object x y p))) = fst (WritePage_object x y p) + 1 \<and>
   (\<exists>p'. WritePage x y data p = Return (fst (WritePage_object x y p), err p', p')) \<and>
   (let xj = points (Dx img); yj = points (Dy img);
        page = WriteJPEGPage_object xj yj p;
        content = writeStreamObject (WriteJPEGPage_content xj yj) (snd page);
        image = writeImage (Dx img) (Dy img) data (snd content)
    in fst content = fst page + 1 \<and> fst image = fst page + 2 \<and>
       (\<exists>p'. WriteJPEGPage img data p = Return (fst page, err p', p')))"
  by (simp add: WritePage_run WriteJPEGPage_run WritePage_object_run WriteJPEGPage_object_run
      writeStreamObject_run writeImage_run Let_def)





text \<open>
  Claim C1. Take a whole execution on a fresh sink: \<^verbatim>\<open>NewPDFWriter\<close>, any sequence of
  \<^verbatim>\<open>WriteInfo\<close>, \<^verbatim>\<open>WritePage\<close> and \<^verbatim>\<open>WriteJPEGPage\<close>, then \<^verbatim>\<open>Flush\<close>. If the sink
  rejected no write, then for every object \<open>k + 1\<close> the offset recorded in the object
  table is the position in the output where its header line \<open>k + 1 0 obj\<close> begins: the
  line stands there, at the very start of the output or just after a newline. The output
  ends with the cross-reference section built from these recorded offsets and the
  trailer, which names the position of that section, and the entry of object \<open>k + 1\<close>
  reads back as the recorded offset.
\<close>

theorem object_offsets_exact:
  assumes "document (new_sink sc fb) ops = Return (e, p)"
    and "rejected (w p) = 0"
    and "k < length (objects p)"
  shows "line_at (accepted (w p)) (objects p ! k) (dec (Suc k) @ '' 0 obj'') \<and>
         (\<exists>xoff. drop xoff (accepted (w p)) =
            xref_section (objects p) @
            trailer_section (length (objects p) + 1) (infoId p) (length (objects p)) xoff) \<and>
         xref_entry_offset (xref_entry (objects p ! k)) = objects p ! k"
proof -
  let ?q = "before_flush (new_sink sc fb) ops"
  from assms(1,2) have p: "p = clean_run (flush_actions ?q) ?q"
    by (intro document_clean(2) [of "new_sink sc fb" ops e]) simp_all
  have wq: "well_placed ?q" by (rule well_placed_before_flush) simp
  then have "well_placed p" unfolding p by (rule well_placed_flush)
  with assms(3) have 1: "line_at (accepted (w p)) (objects p ! k) (dec (Suc k) @ '' 0 obj'')"
    by (simp add: well_placed_def)
  from wq have o: "offset ?q = length (accepted (w ?q))" by (simp add: well_placed_def)
  let ?pre = "accepted (w ?q) @
                pages_tree_object (length (objects ?q) + 1) (pages ?q) @
                catalog_object (length (objects ?q) + 2) (length (objects ?q) + 1)"
  have l: "length (objects p) = length (objects ?q) + 2"
    using flush_output(1) [OF o p] by simp
  have "accepted (w p) = ?pre @ xref_section (objects p) @
      trailer_section (length (objects p) + 1) (infoId p) (length (objects p)) (length ?pre)"
    using flush_output(2) [OF o p] flush_output(4) [OF o p] by (simp add: l)
  then have "drop (length ?pre) (accepted (w p)) = xref_section (objects p) @
      trailer_section (length (objects p) + 1) (infoId p) (length (objects p)) (length ?pre)"
    by (metis append_eq_conv_conj)
  then have 2: "\<exists>xoff. drop xoff (accepted (w p)) =
            xref_section (objects p) @
            trailer_section (length (objects p) + 1) (infoId p) (length (objects p)) xoff"
    by blast
  from 1 2 xref_entry_offset_entry show ?thesis by blast
qed

theorem object_offsets_exact_witness:
  "document (new_sink [] Accept) [Info ''T'' ''20240101000000'', Page (Finite 612) (Finite 792) ''ABC'']
     = Return (None, snd (Flush (before_flush (new_sink [] Accept)
         [Info ''T'' ''20240101000000'', Page (Finite 612) (Finite 792) ''ABC'']))) \<and>
   rejected (w (snd (Flush (before_flush (new_sink [] Accept)
         [Info ''T'' ''20240101000000'', Page (Finite 612) (Finite 792) ''ABC''])))) = 0 \<and>
   2 < length (objects (snd (Flush (before_flush (new_sink [] Accept)
         [Info ''T'' ''20240101000000'', Page (Finite 612) (Finite 792) ''ABC''])))) \<and>
   line_at
     (accepted (w (snd (Flush (before_flush (new_sink [] Accept)
         [Info ''T'' ''20240101000000'', Page (Finite 612) (Finite 792) ''ABC''])))))
     (objects (snd (Flush (before_flush (new_sink [] Accept)
         [Info ''T'' ''20240101000000'', Page (Finite 612) (Finite 792) ''ABC'']))) ! 2)
     (dec (Suc 2) @ '' 0 obj'')"
proof -
  let ?s = "new_sink [] Accept"
  let ?ops = "[Info ''T'' ''20240101000000'', Page (Finite 612) (Finite 792) ''ABC'']"
  let ?q = "before_flush ?s ?ops"
  have acc: "accepting (w ?q)" by (simp add: before_flush_def)
  have f: "Flush ?q = (None, clean_run (flush_actions ?q) ?q)"
    using acc by (rule Flush_accepting)
  have d: "document ?s ?ops = Return (None, snd (Flush ?q))"
    by (simp add: document_accepting f)
  have r: "rejected (w (snd (Flush ?q))) = 0"
    unfolding f by (simp add: before_flush_def)
  have k: "2 < length (objects (snd (Flush ?q)))"
    unfolding f by (simp add: before_flush_def flush_actions_eq)
  from object_offsets_exact [OF d r k] d r k show ?thesis by simp
qed




text \<open>
  Claim C4, at an input that breaks it: \<^verbatim>\<open>NewPDFWriter\<close> on a sink that takes every
  write, followed by \<^verbatim>\<open>Flush\<close>. The cross-reference section starts at byte 111. It is
  the keyword, the range header \<open>0 3\<close> for the two objects written, the free entry and
  one entry per object in increasing order, as the claim says, but every entry is 19
  bytes long, not 20: ten digits, a space, five digits, a space, the marker and a single
  newline. The three entries take 57 bytes and the section 66, after which the trailer
  begins.
\<close>

theorem xref_entries_are_19_bytes:
  "take 66 (drop 111 (accepted (w (snd (Flush (fst (NewPDFWriter reliable_sink))))))) =
     ''xref\<newline>0 3\<newline>'' @
     ''0000000000 65535 f\<newline>'' @ ''0000000009 00000 n\<newline>'' @ ''0000000062 00000 n\<newline>'' \<and>
   take 7 (drop 177 (accepted (w (snd (Flush (fst (NewPDFWriter reliable_sink))))))) =
     ''trailer'' \<and>
   length ''0000000000 65535 f\<newline>'' = 19 \<and>
   length ''0000000009 00000 n\<newline>'' = 19 \<and>
   length ''0000000062 00000 n\<newline>'' = 19"
  by (simp add: empty_document_output empty_document_flush_text)

text \<open>
  Claim C7, refuted on the document without metadata: \<^verbatim>\<open>NewPDFWriter\<close> on a sink that
  takes every write, followed by \<^verbatim>\<open>Flush\<close>, with no call of \<^verbatim>\<open>WriteInfo\<close>. The trailer
  holds the line \<open>/Info 0 0 R\<close>, a reference to object 0, which is no object of the
  document.
\<close>

theorem info_reference_without_metadata:
  "accepted (w (snd (Flush (fst (NewPDFWriter reliable_sink))))) =
     ''%PDF-1.3\<newline>'' @
     ''1 0 obj\<newline><<\<newline>/Type /Pages\<newline>/Kids [ ]\<newline>/Count 0\<newline>>>\<newline>endobj\<newline>'' @
     ''2 0 obj\<newline><<\<newline>/Type /Catalog\<newline>/Pages 1 0 R\<newline>>>\<newline>endobj\<newline>'' @
     ''xref\<newline>0 3\<newline>0000000000 65535 f\<newline>0000000009 00000 n\<newline>0000000062 00000 n\<newline>'' @
     ''trailer\<newline><<\<newline>/Size 3\<newline>/Info 0 0 R\<newline>/Root 2 0 R\<newline>'' @
     ''/ID [<deadbeef> <deadbeef>]\<newline>>>\<newline>startxref\<newline>111\<newline>%%EOF\<newline>''"
  by (simp add: empty_document_output empty_document_flush_text)

text \<open>
  Claim C7 as amended. The trailer emitted by \<^verbatim>\<open>Flush\<close> (when the sink rejects none of
  the writes of \<^verbatim>\<open>Flush\<close>) always holds an \<^verbatim>\<open>/Info\<close> reference, to the identifier in
  \<open>infoId\<close>. That is the identifier of the object written by the last call of
  \<^verbatim>\<open>WriteInfo\<close>, an object of the document, when there was such a call, and it is 0,
  giving \<open>/Info 0 0 R\<close>, exactly when \<^verbatim>\<open>WriteInfo\<close> was never called.
\<close>

theorem trailer_info_reference:
  assumes "session ops (fst (NewPDFWriter s)) = Return q" and "Flush q = (e, p)"
    and "rejected (w p) = rejected (w q)"
  shows "infoId q = info_ident 0 0 ops \<and>
         (info_ident 0 0 ops = 0 \<longleftrightarrow> \<not> list_ex is_info ops) \<and>
         info_ident 0 0 ops \<le> length (objects q) \<and>
         (\<exists>pre xoff. accepted (w p) =
            pre @ ''trailer\<newline><<\<newline>/Size '' @ dec (length (objects p) + 1) @
            ''\<newline>/Info '' @ dec (info_ident 0 0 ops) @
            '' 0 R\<newline>/Root '' @ dec (length (objects p)) @
            '' 0 R\<newline>/ID [<deadbeef> <deadbeef>]\<newline>>>\<newline>startxref\<newline>'' @
            dec xoff @ ''\<newline>%%EOF\<newline>'')"
proof (intro conjI)
  show i: "infoId q = info_ident 0 0 ops" using assms(1) by (rule session_fields)
  show "info_ident 0 0 ops = 0 \<longleftrightarrow> \<not> list_ex is_info ops" by (simp add: info_ident_0)
  show "info_ident 0 0 ops \<le> length (objects q)"
    using info_ident_le [of 0 0 ops] session_objects [OF assms(1)] by simp
  let ?pre = "accepted (w q) @
           pages_tree_object (length (objects q) + 1) (pages q) @
           catalog_object (length (objects q) + 2) (length (objects q) + 1) @
           xref_section (objects p)"
  let ?xoff = "offset q + length (pages_tree_object (length (objects q) + 1) (pages q)) +
              length (catalog_object (length (objects q) + 2) (length (objects q) + 1))"
  have "accepted (w p) =
            ?pre @ ''trailer\<newline><<\<newline>/Size '' @ dec (length (objects p) + 1) @
            ''\<newline>/Info '' @ dec (info_ident 0 0 ops) @
            '' 0 R\<newline>/Root '' @ dec (length (objects p)) @
            '' 0 R\<newline>/ID [<deadbeef> <deadbeef>]\<newline>>>\<newline>startxref\<newline>'' @
            dec ?xoff @ ''\<newline>%%EOF\<newline>''"
    using Flush_clean_text [OF assms(2,3)] i by (simp add: trailer_section_def nl_def)
  then show "\<exists>pre xoff. accepted (w p) =
            pre @ ''trailer\<newline><<\<newline>/Size '' @ dec (length (objects p) + 1) @
            ''\<newline>/Info '' @ dec (info_ident 0 0 ops) @
            '' 0 R\<newline>/Root '' @ dec (length (objects p)) @
            '' 0 R\<newline>/ID [<deadbeef> <deadbeef>]\<newline>>>\<newline>startxref\<newline>'' @
            dec xoff @ ''\<newline>%%EOF\<newline>''"
    by blast
qed

theorem trailer_info_reference_witness:
  "session [Info ''T'' ''20240101000000''] (fst (NewPDFWriter reliable_sink)) =
     Return (before_flush reliable_sink [Info ''T'' ''20240101000000'']) \<and>
   rejected (w (snd (Flush (before_flush reliable_sink [Info ''T'' ''20240101000000'']))))
     = rejected (w (before_flush reliable_sink [Info ''T'' ''20240101000000''])) \<and>
   infoId (before_flush reliable_sink [Info ''T'' ''20240101000000'']) = 1 \<and>
   list_ex is_info [Info ''T'' ''20240101000000''] \<and>
   (\<exists>pre xoff.
      accepted (w (snd (Flush (before_flush reliable_sink [Info ''T'' ''20240101000000''])))) =
        pre @ ''trailer\<newline><<\<newline>/Size 4\<newline>/Info 1 0 R\<newline>/Root 3 0 R\<newline>'' @
        ''/ID [<deadbeef> <deadbeef>]\<newline>>>\<newline>startxref\<newline>'' @ dec xoff @
        ''\<newline>%%EOF\<newline>'')"
proof -
  let ?ops = "[Info ''T'' ''20240101000000'']"
  let ?q = "before_flush reliable_sink ?ops"
  have acc: "accepting (w ?q)" by (simp add: before_flush_def)
  have s: "session ?ops (fst (NewPDFWriter reliable_sink)) = Return ?q"
    by (rule session_accepting) simp
  have f: "Flush ?q = (fst (Flush ?q), snd (Flush ?q))" by simp
  have r: "rejected (w (snd (Flush ?q))) = rejected (w ?q)"
    using Flush_accepting [OF acc] by simp
  have l: "length (objects (snd (Flush ?q))) = 3"
    using Flush_accepting [OF acc] by (simp add: flush_actions_eq before_flush_def)
  have d: "dec (Suc 0) = ''1''" "dec 3 = ''3''" "dec 4 = ''4''" by code_simp+
  from trailer_info_reference [OF s f r] s r l d show ?thesis by simp
qed

text \<open>
  Claim C9. \<^verbatim>\<open>WriteJPEGPage\<close> computes both sides of the page from the pixel counts of
  the image as \<open>points\<close>, the binary64 value of \<^verbatim>\<open>Length(px) / 150 * INCH\<close> with
  \<^verbatim>\<open>INCH = 72\<close>, and prints them with two decimals in the \<^verbatim>\<open>/MediaBox\<close> and
  \<^verbatim>\<open>/CropBox\<close> lines, the first lines of the page object after its type. For an image
  of 1500 by 1050 pixels the lines read \<open>[0 0 720.00 504.00]\<close>.
\<close>

theorem jpeg_page_box:
  assumes "WriteJPEGPage img data p = Return (i, e, q)" and "rejected (w q) = rejected (w p)"
  shows "points (Dx img) = Finite (f64_round (f64_round (f64_round (of_int (Dx img)) / 150) * 72)) \<and>
         (\<exists>rest. accepted (w q) =
            accepted (w p) @ dec i @ '' 0 obj\<newline><<\<newline>/Type /Page\<newline>'' @
            ''/MediaBox [0 0 '' @ fmt_f2 (points (Dx img)) @ '' '' @ fmt_f2 (points (Dy img)) @
            '']\<newline>/CropBox [0 0 '' @ fmt_f2 (points (Dx img)) @ '' '' @
            fmt_f2 (points (Dy img)) @ '']\<newline>'' @ rest) \<and>
         (Dx img = 1500 \<and> Dy img = 1050 \<longrightarrow>
            (\<exists>rest. accepted (w q) =
               accepted (w p) @ dec i @ '' 0 obj\<newline><<\<newline>/Type /Page\<newline>'' @
               ''/MediaBox [0 0 720.00 504.00]\<newline>/CropBox [0 0 720.00 504.00]\<newline>'' @
               rest))"
proof -
  have 1: "points (Dx img) = Finite (f64_round (f64_round (f64_round (of_int (Dx img)) / 150) * 72))"
    by (simp add: points_def f64_mul_def f64_div_def f64_of_int_def INCH_def)
  have 2: "\<exists>rest. accepted (w q) =
            accepted (w p) @ dec i @ '' 0 obj\<newline><<\<newline>/Type /Page\<newline>'' @
            ''/MediaBox [0 0 '' @ fmt_f2 (points (Dx img)) @ '' '' @ fmt_f2 (points (Dy img)) @
            '']\<newline>/CropBox [0 0 '' @ fmt_f2 (points (Dx img)) @ '' '' @
            fmt_f2 (points (Dy img)) @ '']\<newline>'' @ rest"
    using WriteJPEGPage_clean [OF assms]
    by (simp add: jpeg_page_actions_def jpeg_page_object_actions_def obj_head_def nl_def)
  from 2 have 3: "Dx img = 1500 \<and> Dy img = 1050 \<longrightarrow>
            (\<exists>rest. accepted (w q) =
               accepted (w p) @ dec i @ '' 0 obj\<newline><<\<newline>/Type /Page\<newline>'' @
               ''/MediaBox [0 0 720.00 504.00]\<newline>/CropBox [0 0 720.00 504.00]\<newline>'' @
               rest)"
    by (auto simp: points_1500 points_1050)
  from 1 2 3 show ?thesis by blast
qed

theorem jpeg_page_box_witness:
  "WriteJPEGPage \<lparr>MinX = 0, MinY = 0, MaxX = 1500, MaxY = 1050\<rparr> ''JPEG''
     (fst (NewPDFWriter reliable_sink)) =
     Return (1, None,
       (clean_run (jpeg_page_actions 1 \<lparr>MinX = 0, MinY = 0, MaxX = 1500, MaxY = 1050\<rparr> ''JPEG'')
          (fst (NewPDFWriter reliable_sink)))\<lparr>pages := [1]\<rparr>) \<and>
   Dx \<lparr>MinX = 0, MinY = 0, MaxX = 1500, MaxY = 1050\<rparr> = 1500 \<and>
   Dy \<lparr>MinX = 0, MinY = 0, MaxX = 1500, MaxY = 1050\<rparr> = 1050 \<and>
   (\<exists>rest.
      accepted (w ((clean_run
          (jpeg_page_actions 1 \<lparr>MinX = 0, MinY = 0, MaxX = 1500, MaxY = 1050\<rparr> ''JPEG'')
          (fst (NewPDFWriter reliable_sink)))\<lparr>pages := [1]\<rparr>)) =
        ''%PDF-1.3\<newline>1 0 obj\<newline><<\<newline>/Type /Page\<newline>'' @
        ''/MediaBox [0 0 720.00 504.00]\<newline>/CropBox [0 0 720.00 504.00]\<newline>'' @ rest)"
proof -
  let ?img = "\<lparr>MinX = 0, MinY = 0, MaxX = 1500, MaxY = 1050\<rparr>"
  let ?p = "fst (NewPDFWriter reliable_sink)"
  let ?q = "(clean_run (jpeg_page_actions 1 ?img ''JPEG'') ?p)\<lparr>pages := [1]\<rparr>"
  have acc: "accepting (w ?p)" by (simp add: NewPDFWriter_reliable)
  have o: "objects ?p = []" and pg: "pages ?p = []"
    and a: "accepted (w ?p) = ''%PDF-1.3\<newline>''"
    by (simp_all add: NewPDFWriter_reliable nl_def)
  have h: "WriteJPEGPage ?img ''JPEG'' ?p = Return (1, None, ?q)"
    using acc
    by (simp add: WriteJPEGPage_run Let_def run_accepting o pg jpeg_page_actions_def
        jpeg_page_object_actions_def)
  have r: "rejected (w ?q) = rejected (w ?p)" by simp
  have d: "dec 1 = ''1''" by code_simp
  from jpeg_page_box [OF h r] Dx_Dy_example a d h show ?thesis by simp
qed

text \<open>
  Claim C3, at the input that breaks it: a sink that takes the eight bytes of the header,
  rejects the newline without taking it, and takes every later write. \<^verbatim>\<open>print\<close> adds
  one to \<open>offset\<close> whatever the sink answered to the newline, so after \<^verbatim>\<open>NewPDFWriter\<close>
  the cursor is 9 while the sink holds 8 bytes. \<^verbatim>\<open>Flush\<close> then returns no error and
  records object 1 at offset 9, one byte after the place where its header line begins.
\<close>

theorem offset_counts_rejected_newline:
  "offset (fst (NewPDFWriter (new_sink [Accept, Reject 0 (WriteError 7)] Accept))) = 9 \<and>
   accepted (w (fst (NewPDFWriter (new_sink [Accept, Reject 0 (WriteError 7)] Accept)))) =
     ''%PDF-1.3'' \<and>
   length (accepted (w (fst (NewPDFWriter (new_sink [Accept, Reject 0 (WriteError 7)] Accept)))))
     = 8 \<and>
   fst (Flush (fst (NewPDFWriter (new_sink [Accept, Reject 0 (WriteError 7)] Accept)))) = None \<and>
   objects (snd (Flush (fst (NewPDFWriter (new_sink [Accept, Reject 0 (WriteError 7)] Accept)))))
     = [9, 62] \<and>
   take 8 (drop 8 (accepted (w (snd (Flush (fst (NewPDFWriter
     (new_sink [Accept, Reject 0 (WriteError 7)] Accept))))))))
     = ''1 0 obj\<newline>'' \<and>
   take 8 (drop 9 (accepted (w (snd (Flush (fst (NewPDFWriter
     (new_sink [Accept, Reject 0 (WriteError 7)] Accept))))))))
     = '' 0 obj\<newline><''"
proof -
  let ?p = "fst (NewPDFWriter (new_sink [Accept, Reject 0 (WriteError 7)] Accept))"
  have p: "offset ?p = 9" "objects ?p = []" "pages ?p = []" "infoId ?p = 0"
    "accepted (w ?p) = ''%PDF-1.3''" "accepting (w ?p)"
    by (simp_all add: NewPDFWriter_def new_sink_def print_def Write_def next_outcome_def
        Let_def nl_def accepting_def)
  have f: "Flush ?p = (None, clean_run (flush_actions ?p) ?p)"
    using p(6) by (rule Flush_accepting)
  show ?thesis
    unfolding f by (simp add: p flush_at_9 [OF p(1-4)])
qed

end
